theory Spec2Isabelle
  imports Complex_Main "HOL-Library.Log_Nat" "HOL-Library.Sublist"
begin

section \<open>The upload flow of the Smart Finance Automator front end\<close>

text \<open>
  A shallow embedding of \<^verbatim>\<open>SmartFinanceApp.upload\<close> and \<^verbatim>\<open>window.clearFile\<close> from
  \<^verbatim>\<open>frontend/static/js/main.js\<close>. The page, the staged file, the running interval timers
  and the requests in flight form one state record; every handler of the source is a function
  on that record. A \<^verbatim>\<open>TypeError\<close> raised by the source (a property read on \<^verbatim>\<open>null\<close>,
  a call of something that is no function) is the completion \<open>Throw\<close>. Strings are lists
  of 8-bit characters. The toast, timer and \<^verbatim>\<open>fetch\<close> interfaces of the browser are
  recorded by the calls the program makes to them.
\<close>

subsection \<open>JavaScript numbers\<close>

text \<open>
  A JavaScript number is an IEEE 754 binary64 value. The program only computes with
  non-negative numbers, so a finite double is carried by its exact rational value, and
  \<open>round_double\<close> is rounding to nearest, ties to even, of a non-negative rational: 53
  significant bits, least exponent \<open>-1074\<close>, overflow to \<open>Infinity\<close> from \<open>2 ^ 1024\<close> on.
\<close>

datatype double = Fin rat | Infinity | NaN

definition floor_log2 :: "rat \<Rightarrow> int" where
  "floor_log2 x =
     (let (p, q) = quotient_of x; k = bitlen p - bitlen q
      in if 2 powi k \<le> x then k else k - 1)"

definition round_half_even :: "rat \<Rightarrow> int" where
  "round_half_even y =
     (let f = \<lfloor>y\<rfloor>; d = y - of_int f
      in if d < 1 / 2 then f
         else if 1 / 2 < d then f + 1
         else if even f then f else f + 1)"

definition round_double :: "rat \<Rightarrow> double" where
  "round_double x =
     (if x = 0 then Fin 0
      else let e = max (floor_log2 x - 52) (- 1074);
               v = of_int (round_half_even (x / 2 powi e)) * 2 powi e
           in if 2 ^ 1024 \<le> v then Infinity else Fin v)"

text \<open>\<^verbatim>\<open>a * b\<close> and \<^verbatim>\<open>a + b\<close> on non-negative numbers, \<^verbatim>\<open>Math.floor\<close>, \<^verbatim>\<open>a >= b\<close>.\<close>

fun dmul :: "double \<Rightarrow> double \<Rightarrow> double" where
  "dmul (Fin a) (Fin b) = round_double (a * b)"
| "dmul NaN _ = NaN"
| "dmul _ NaN = NaN"
| "dmul Infinity (Fin b) = (if b = 0 then NaN else Infinity)"
| "dmul (Fin a) Infinity = (if a = 0 then NaN else Infinity)"
| "dmul Infinity Infinity = Infinity"

fun dadd :: "double \<Rightarrow> double \<Rightarrow> double" where
  "dadd (Fin a) (Fin b) = round_double (a + b)"
| "dadd NaN _ = NaN"
| "dadd _ NaN = NaN"
| "dadd Infinity _ = Infinity"
| "dadd _ Infinity = Infinity"

fun Math_floor :: "double \<Rightarrow> double" where
  "Math_floor (Fin a) = Fin (of_int \<lfloor>a\<rfloor>)"
| "Math_floor Infinity = Infinity"
| "Math_floor NaN = NaN"

fun dge :: "double \<Rightarrow> double \<Rightarrow> bool" where
  "dge (Fin a) (Fin b) = (b \<le> a)"
| "dge NaN _ = False"
| "dge _ NaN = False"
| "dge Infinity _ = True"
| "dge (Fin a) Infinity = False"

subsection \<open>Values, files and the page\<close>

text \<open>A value parsed from a JSON response body, or read as a property of one.\<close>

datatype jsval =
    JUndefined
  | JNull
  | JBool bool
  | JNum double
  | JStr string
  | JArr "jsval list"
  | JObj "(string \<times> jsval) list"

text \<open>A \<^verbatim>\<open>File\<close>: its \<^verbatim>\<open>name\<close>, \<^verbatim>\<open>type\<close> and \<^verbatim>\<open>size\<close>.\<close>

record jsfile =
  file_name :: string
  file_type :: string
  file_size :: nat

text \<open>
  What the program assigns to a string property of the page. The browser turns the assigned
  value into a string; the model keeps the value: a string, a number (\<^verbatim>\<open>textContent = n\<close>),
  a number followed by a percent sign (\<^verbatim>\<open>width + '%'\<close>), or the result of
  \<^verbatim>\<open>formatFileSize(bytes)\<close>, whose logarithms are not modelled.
\<close>

datatype domstring = Text string | NumberText double | PercentText double | FileSizeText nat

record element =
  display :: string
  textContent :: domstring
  disabled :: bool
  checked :: bool
  input_value :: string

datatype formvalue = FileValue jsfile | BoolValue bool

type_synonym formdata = "(string \<times> formvalue) list"

text \<open>
  \<open>elements\<close> is \<^verbatim>\<open>document.getElementById\<close>; \<open>progressBar\<close> is the \<^verbatim>\<open>style.width\<close> of
  \<^verbatim>\<open>document.querySelector('.progress-bar')\<close>, \<open>None\<close> when the page has no such element.
  \<open>toasts\<close> are the toasts shown by \<^verbatim>\<open>showToast(message, type)\<close>, oldest first. \<open>intervals\<close> are
  the timers made by \<^verbatim>\<open>setInterval\<close>: the position is the timer's id, \<open>Some width\<close> is a
  running timer with the \<^verbatim>\<open>width\<close> of its closure, \<open>None\<close> a cleared one. \<open>requests\<close> are
  the calls of \<^verbatim>\<open>fetch('/upload', ...)\<close>: \<open>Some body\<close> is in flight, \<open>None\<close> is settled.
  \<open>uncaught\<close> counts the exceptions that left a handler.
\<close>

record state =
  currentFile :: "jsfile option"
  elements :: "string \<rightharpoonup> element"
  progressBar :: "domstring option"
  toasts :: "(jsval \<times> string) list"
  intervals :: "double option list"
  requests :: "formdata option list"
  uncaught :: nat

datatype completion = Normal | Throw

text \<open>
  \<^verbatim>\<open>showToast\<close> puts the message into a template literal, which converts it to a
  string. For the values a JSON body can hold the conversion raises a \<^verbatim>\<open>TypeError\<close> in
  one case only: an object with an own property \<^verbatim>\<open>toString\<close>, which is no function, so that
  neither it nor the inherited \<^verbatim>\<open>valueOf\<close> yields a primitive. An array is joined from the
  conversions of its elements, \<^verbatim>\<open>null\<close> giving the empty string.
\<close>

fun stringifies :: "jsval \<Rightarrow> bool" where
  "stringifies (JObj kvs) = (\<not> List.member (map fst kvs) ''toString'')"
| "stringifies (JArr vs) = list_all stringifies vs"
| "stringifies _ = True"

text \<open>
  \<^verbatim>\<open>showToast(message, type)\<close>: the toast is shown unless the conversion of the message
  raises, which happens before the toast is added to the page. The container and the toast
  nodes are kept in \<open>toasts\<close>, not in \<open>elements\<close>; the Bootstrap library is taken to be
  loaded.
\<close>

definition showToast :: "jsval \<Rightarrow> string \<Rightarrow> state \<Rightarrow> completion \<times> state" where
  "showToast message type s =
     (if stringifies message
      then (Normal, s\<lparr>toasts := toasts s @ [(message, type)]\<rparr>)
      else (Throw, s))"

definition set_display :: "string \<Rightarrow> string \<Rightarrow> state \<Rightarrow> completion \<times> state" where
  "set_display ident v s =
     (case elements s ident of
        None \<Rightarrow> (Throw, s)
      | Some el \<Rightarrow> (Normal, s\<lparr>elements := (elements s)(ident \<mapsto> el\<lparr>display := v\<rparr>)\<rparr>))"

subsection \<open>Validation and staging of a file\<close>

definition allowedTypes :: "string list" where
  "allowedTypes = [''text/plain'', ''text/csv'', ''application/json'']"

definition maxSize :: nat where
  "maxSize = 16 * 1024 * 1024"

text \<open>
  The flag \<^verbatim>\<open>i\<close> of a regular expression compares characters after \<^verbatim>\<open>Canonicalize\<close>: the
  upper-case form, except that no character outside ASCII is mapped into ASCII.
\<close>

definition canonicalize :: "char \<Rightarrow> char" where
  "canonicalize c =
     (let n = (of_char c :: nat) in if 97 \<le> n \<and> n \<le> 122 then char_of (n - 32) else c)"

definition ends_with :: "'a list \<Rightarrow> 'a list \<Rightarrow> bool" where
  "ends_with p xs = (length p \<le> length xs \<and> drop (length xs - length p) xs = p)"

text \<open>\<^verbatim>\<open>name.match(/\.(txt|csv|json)$/i)\<close> as a truth value.\<close>

definition matches_extension :: "string \<Rightarrow> bool" where
  "matches_extension name =
     (let n = map canonicalize name
      in ends_with (map canonicalize ''.txt'') n
         \<or> ends_with (map canonicalize ''.csv'') n
         \<or> ends_with (map canonicalize ''.json'') n)"

text \<open>
  \<open>validateFile\<close> returns \<^verbatim>\<open>true\<close> or \<^verbatim>\<open>false\<close>; the result is \<open>None\<close> if the call of
  \<open>showToast\<close> raises.
\<close>

definition validateFile :: "jsfile \<Rightarrow> state \<Rightarrow> bool option \<times> state" where
  "validateFile f s =
     (if \<not> List.member allowedTypes (file_type f) \<and> \<not> matches_extension (file_name f)
      then (case showToast (JStr ''Please select a valid file type (.txt, .csv, .json)'')
                   ''warning'' s of
              (Throw, s1) \<Rightarrow> (None, s1)
            | (Normal, s1) \<Rightarrow> (Some False, s1))
      else if maxSize < file_size f
      then (case showToast (JStr ''File size must be less than 16MB'') ''warning'' s of
              (Throw, s1) \<Rightarrow> (None, s1)
            | (Normal, s1) \<Rightarrow> (Some False, s1))
      else (Some True, s))"

definition showFilePreview :: "jsfile \<Rightarrow> state \<Rightarrow> state" where
  "showFilePreview f s =
     (case (elements s ''filePreview'', elements s ''fileName'', elements s ''fileSize'') of
        (Some preview, Some fileName, Some fileSize) \<Rightarrow>
          s\<lparr>elements := (elements s)
               (''fileName'' \<mapsto> fileName\<lparr>textContent := Text (file_name f)\<rparr>,
                ''fileSize'' \<mapsto> fileSize\<lparr>textContent := FileSizeText (file_size f)\<rparr>,
                ''filePreview'' \<mapsto> preview\<lparr>display := ''block''\<rparr>)\<rparr>
      | _ \<Rightarrow> s)"

definition handleFile :: "jsfile \<Rightarrow> state \<Rightarrow> completion \<times> state" where
  "handleFile f s =
     (case validateFile f s of
        (None, s1) \<Rightarrow> (Throw, s1)
      | (Some False, s1) \<Rightarrow> (Normal, s1)
      | (Some True, s1) \<Rightarrow>
          (let s2 = showFilePreview f (s1\<lparr>currentFile := Some f\<rparr>)
           in case elements s2 ''submitBtn'' of
                None \<Rightarrow> (Throw, s2)
              | Some btn \<Rightarrow>
                  (Normal, s2\<lparr>elements := (elements s2)(''submitBtn'' \<mapsto> btn\<lparr>disabled := False\<rparr>)\<rparr>)))"

text \<open>The \<^verbatim>\<open>drop\<close> and \<^verbatim>\<open>change\<close> listeners hand the first file of the list to \<open>handleFile\<close>.\<close>

definition handleDrop :: "jsfile list \<Rightarrow> state \<Rightarrow> completion \<times> state" where
  "handleDrop files s = (case files of [] \<Rightarrow> (Normal, s) | f # _ \<Rightarrow> handleFile f s)"

subsection \<open>Reading the response\<close>

text \<open>
  The property reads \<^verbatim>\<open>v.error\<close> and \<^verbatim>\<open>v.success\<close>: a \<^verbatim>\<open>TypeError\<close> (\<open>None\<close>) on
  \<^verbatim>\<open>null\<close> and \<^verbatim>\<open>undefined\<close>, the last entry of that name in an object (as
  \<^verbatim>\<open>JSON.parse\<close> keeps it), \<^verbatim>\<open>undefined\<close> otherwise: no prototype defines these two names.
\<close>

fun get_prop :: "jsval \<Rightarrow> string \<Rightarrow> jsval option" where
  "get_prop JUndefined k = None"
| "get_prop JNull k = None"
| "get_prop (JObj kvs) k = (case map_of (rev kvs) k of Some v \<Rightarrow> Some v | None \<Rightarrow> Some JUndefined)"
| "get_prop _ k = Some JUndefined"

fun truthy :: "jsval \<Rightarrow> bool" where
  "truthy JUndefined = False"
| "truthy JNull = False"
| "truthy (JBool b) = b"
| "truthy (JNum d) = (d \<noteq> Fin 0 \<and> d \<noteq> NaN)"
| "truthy (JStr str) = (str \<noteq> [])"
| "truthy (JArr _) = True"
| "truthy (JObj _) = True"

definition is_digit :: "char \<Rightarrow> bool" where
  "is_digit c = (let n = (of_char c :: nat) in 48 \<le> n \<and> n \<le> 57)"

definition starts_with :: "'a list \<Rightarrow> 'a list \<Rightarrow> bool" where
  "starts_with p xs = (take (length p) xs = p)"

text \<open>
  \<^verbatim>\<open>/(\d+) transactions/\<close> tried at the start of the input, giving group 1. The greedy
  \<^verbatim>\<open>\d+\<close> takes the whole run of digits; giving digits back cannot help, since the next
  character of the pattern is a space and the character given back is a digit.
\<close>

definition match_here :: "string \<Rightarrow> string option" where
  "match_here str =
     (let ds = takeWhile is_digit str
      in if ds \<noteq> [] \<and> starts_with '' transactions'' (dropWhile is_digit str)
         then Some ds else None)"

text \<open>\<^verbatim>\<open>message.match(/(\d+) transactions/)\<close>: the leftmost match, \<open>None\<close> for \<^verbatim>\<open>null\<close>.\<close>

fun regex_match :: "string \<Rightarrow> string option" where
  "regex_match [] = None"
| "regex_match (c # cs) =
     (case match_here (c # cs) of Some ds \<Rightarrow> Some ds | None \<Rightarrow> regex_match cs)"

definition decimal :: "string \<Rightarrow> nat" where
  "decimal ds = foldl (\<lambda>n c. 10 * n + (of_char c - 48)) 0 ds"

text \<open>
  The conversion of a string to a number that \<^verbatim>\<open>*\<close> applies to its operand. The program
  multiplies strings of decimal digits only; they denote the double nearest to the integer
  written (beyond 20 significant digits the language allows an implementation a coarser
  rounding). Other numeric literals of the language are not modelled.
\<close>

definition ToNumber :: "string \<Rightarrow> double" where
  "ToNumber str =
     (if str \<noteq> [] \<and> list_all is_digit str then round_double (of_nat (decimal str)) else NaN)"

text \<open>The literals \<^verbatim>\<open>0.8\<close> and \<^verbatim>\<open>0.6\<close>: the doubles nearest to 4/5 and 3/5.\<close>

definition lit_0_8 :: double where
  "lit_0_8 = round_double (4 / 5)"

definition lit_0_6 :: double where
  "lit_0_6 = round_double (3 / 5)"

definition set_textContent :: "string \<Rightarrow> domstring \<Rightarrow> state \<Rightarrow> state" where
  "set_textContent ident v s =
     (case elements s ident of
        None \<Rightarrow> s
      | Some el \<Rightarrow> s\<lparr>elements := (elements s)(ident \<mapsto> el\<lparr>textContent := v\<rparr>)\<rparr>)"

definition showResults :: "jsval \<Rightarrow> state \<Rightarrow> completion \<times> state" where
  "showResults data s =
     (case elements s ''processingResults'' of
        None \<Rightarrow> (Normal, s)
      | Some resultsDiv \<Rightarrow>
          (case get_prop data ''success'' of
             None \<Rightarrow> (Throw, s)
           | Some v \<Rightarrow>
               (case (if truthy v then v else JStr []) of
                  JStr message \<Rightarrow>
                    (let processedCount =
                           (case regex_match message of Some ds \<Rightarrow> ds | None \<Rightarrow> ''0'');
                         s1 = set_textContent ''processedCount'' (Text processedCount) s;
                         s2 = set_textContent ''categorizedCount''
                                (NumberText (Math_floor (dmul (ToNumber processedCount) lit_0_8))) s1;
                         s3 = set_textContent ''merchantsFound''
                                (NumberText (Math_floor (dmul (ToNumber processedCount) lit_0_6))) s2;
                         s4 = set_textContent ''confidenceScore'' (Text ''85%'') s3
                     in set_display ''processingResults'' ''block'' s4)
                | _ \<Rightarrow> (Throw, s))))"

subsection \<open>Submission\<close>

definition options :: "string list" where
  "options = [''autoCategories'', ''skipDuplicates'', ''extractDates'', ''detectMerchants'']"

text \<open>The \<^verbatim>\<open>FormData\<close> of \<open>handleSubmit\<close>: the file, then a field for each checkbox found.\<close>

definition build_formData :: "jsfile \<Rightarrow> state \<Rightarrow> formdata" where
  "build_formData f s =
     (''file'', FileValue f) #
     List.map_filter
       (\<lambda>opt. case elements s opt of
                 None \<Rightarrow> None
               | Some checkbox \<Rightarrow> Some (opt, BoolValue (checked checkbox)))
       options"

text \<open>\<^verbatim>\<open>setInterval\<close> starts a timer whose closure holds \<^verbatim>\<open>width = 0\<close>.\<close>

definition simulateProgress :: "state \<Rightarrow> state" where
  "simulateProgress s =
     (case progressBar s of
        None \<Rightarrow> s
      | Some _ \<Rightarrow> s\<lparr>intervals := intervals s @ [Some (Fin 0)]\<rparr>)"

definition showProcessingState :: "state \<Rightarrow> completion \<times> state" where
  "showProcessingState s =
     (case set_display ''uploadForm'' ''none'' s of
        (Throw, s1) \<Rightarrow> (Throw, s1)
      | (Normal, s1) \<Rightarrow>
          (case set_display ''processingStatus'' ''block'' s1 of
             (Throw, s2) \<Rightarrow> (Throw, s2)
           | (Normal, s2) \<Rightarrow> (Normal, simulateProgress s2)))"

definition hideProcessingState :: "state \<Rightarrow> completion \<times> state" where
  "hideProcessingState s = set_display ''processingStatus'' ''none'' s"

definition showUploadForm :: "state \<Rightarrow> completion \<times> state" where
  "showUploadForm s = set_display ''uploadForm'' ''block'' s"

text \<open>
  \<open>handleSubmit\<close> up to its first \<^verbatim>\<open>await\<close>: the guard on the staged file, the form data,
  the processing state, and the call of \<^verbatim>\<open>fetch\<close>, which joins the requests in flight.
\<close>

definition handleSubmit :: "state \<Rightarrow> completion \<times> state" where
  "handleSubmit s =
     (case currentFile s of
        None \<Rightarrow> showToast (JStr ''Please select a file to upload'') ''warning'' s
      | Some f \<Rightarrow>
          (let formData = build_formData f s
           in case showProcessingState s of
                (Throw, s1) \<Rightarrow> (Throw, s1)
              | (Normal, s1) \<Rightarrow> (Normal, s1\<lparr>requests := requests s1 @ [Some formData]\<rparr>)))"

text \<open>
  How a request ends: \<^verbatim>\<open>fetch\<close> rejects, or it resolves to a response with a status, whose
  body \<^verbatim>\<open>response.json()\<close> either rejects or parses.
\<close>

datatype body = Malformed | Json jsval

datatype fetch_outcome = NetworkError | Response nat body

text \<open>The \<^verbatim>\<open>try\<close> block of \<open>handleSubmit\<close> from the settled \<^verbatim>\<open>fetch\<close> on.\<close>

definition handleSubmit_try :: "fetch_outcome \<Rightarrow> state \<Rightarrow> completion \<times> state" where
  "handleSubmit_try outcome s =
     (case outcome of
        NetworkError \<Rightarrow> (Throw, s)
      | Response status Malformed \<Rightarrow> (Throw, s)
      | Response status (Json result) \<Rightarrow>
          (case hideProcessingState s of
             (Throw, s1) \<Rightarrow> (Throw, s1)
           | (Normal, s1) \<Rightarrow>
               (case get_prop result ''error'' of
                  None \<Rightarrow> (Throw, s1)
                | Some err \<Rightarrow>
                    if truthy err
                    then (case showToast err ''danger'' s1 of
                            (Throw, s2) \<Rightarrow> (Throw, s2)
                          | (Normal, s2) \<Rightarrow> showUploadForm s2)
                    else (case showResults result s1 of
                            (Throw, s2) \<Rightarrow> (Throw, s2)
                          | (Normal, s2) \<Rightarrow>
                              (case get_prop result ''success'' of
                                 None \<Rightarrow> (Throw, s2)
                               | Some msg \<Rightarrow> showToast msg ''success'' s2)))))"

text \<open>The \<^verbatim>\<open>catch\<close> block.\<close>

definition handleSubmit_catch :: "state \<Rightarrow> completion \<times> state" where
  "handleSubmit_catch s =
     (case hideProcessingState s of
        (Throw, s1) \<Rightarrow> (Throw, s1)
      | (Normal, s1) \<Rightarrow>
          (case showUploadForm s1 of
             (Throw, s2) \<Rightarrow> (Throw, s2)
           | (Normal, s2) \<Rightarrow>
               showToast (JStr ''An error occurred while processing your file. Please try again.'')
                 ''danger'' s2))"

definition handleSubmit_resume :: "fetch_outcome \<Rightarrow> state \<Rightarrow> completion \<times> state" where
  "handleSubmit_resume outcome s =
     (case handleSubmit_try outcome s of
        (Normal, s1) \<Rightarrow> (Normal, s1)
      | (Throw, s1) \<Rightarrow> handleSubmit_catch s1)"

text \<open>
  The callback of the timer with id \<open>i\<close>, run with the value \<open>r\<close> of \<^verbatim>\<open>Math.random()\<close>.
  A cleared timer does not fire.
\<close>

definition interval_callback :: "nat \<Rightarrow> rat \<Rightarrow> state \<Rightarrow> state" where
  "interval_callback i r s =
     (if i < length (intervals s)
      then (case intervals s ! i of
              None \<Rightarrow> s
            | Some width \<Rightarrow>
                (let width1 = dadd width (dmul (Fin r) (Fin 15))
                 in if dge width1 (Fin 95)
                    then s\<lparr>intervals := (intervals s)[i := None],
                           progressBar := Some (PercentText (Fin 95))\<rparr>
                    else s\<lparr>intervals := (intervals s)[i := Some width1],
                           progressBar := Some (PercentText width1)\<rparr>))
      else s)"

text \<open>\<^verbatim>\<open>window.clearFile\<close>.\<close>

definition clearFile :: "state \<Rightarrow> state" where
  "clearFile s =
     (let s1 = (case elements s ''fileInput'' of
                  None \<Rightarrow> s
                | Some fileInput \<Rightarrow>
                    s\<lparr>elements := (elements s)(''fileInput'' \<mapsto> fileInput\<lparr>input_value := []\<rparr>)\<rparr>);
          s2 = (case elements s1 ''filePreview'' of
                  None \<Rightarrow> s1
                | Some filePreview \<Rightarrow>
                    s1\<lparr>elements := (elements s1)(''filePreview'' \<mapsto> filePreview\<lparr>display := ''none''\<rparr>)\<rparr>);
          s3 = (case elements s2 ''submitBtn'' of
                  None \<Rightarrow> s2
                | Some submitBtn \<Rightarrow>
                    s2\<lparr>elements := (elements s2)(''submitBtn'' \<mapsto> submitBtn\<lparr>disabled := True\<rparr>)\<rparr>)
      in s3\<lparr>currentFile := None\<rparr>)"

subsection \<open>The event loop\<close>

text \<open>
  The browser runs one handler at a time. An event is a file chosen or dropped, the form
  submitted, request \<open>i\<close> settling, timer \<open>i\<close> firing, or a call of \<^verbatim>\<open>clearFile\<close>. A request
  that is not in flight cannot settle. An exception that leaves a handler is counted and the
  changes made before it stay.
\<close>

datatype event =
    Change "jsfile list"
  | Drop "jsfile list"
  | Submit
  | Settle nat fetch_outcome
  | Tick nat rat
  | ClearFile

definition finish :: "completion \<times> state \<Rightarrow> state" where
  "finish r = (case r of (Normal, s) \<Rightarrow> s | (Throw, s) \<Rightarrow> s\<lparr>uncaught := uncaught s + 1\<rparr>)"

fun step :: "event \<Rightarrow> state \<Rightarrow> state" where
  "step (Change files) s = finish (handleDrop files s)"
| "step (Drop files) s = finish (handleDrop files s)"
| "step Submit s = finish (handleSubmit s)"
| "step (Settle i outcome) s =
     (if i < length (requests s) \<and> requests s ! i \<noteq> None
      then finish (handleSubmit_resume outcome (s\<lparr>requests := (requests s)[i := None]\<rparr>))
      else s)"
| "step (Tick i r) s = interval_callback i r s"
| "step ClearFile s = clearFile s"

definition run :: "event list \<Rightarrow> state \<Rightarrow> state" where
  "run evs s = fold step evs s"

text \<open>The controller is submitting while a request is in flight.\<close>

definition submitting :: "state \<Rightarrow> bool" where
  "submitting s = list_ex (\<lambda>r. r \<noteq> None) (requests s)"

text \<open>A page that has every element the handlers look up, with nothing staged.\<close>

definition blank :: element where
  "blank = \<lparr>display = [], textContent = Text [], disabled = False, checked = False,
            input_value = []\<rparr>"

definition page_elements :: "string \<rightharpoonup> element" where
  "page_elements =
     map_of
       [(''fileInput'', blank), (''filePreview'', blank\<lparr>display := ''none''\<rparr>),
        (''fileName'', blank), (''fileSize'', blank),
        (''submitBtn'', blank\<lparr>disabled := True\<rparr>), (''uploadForm'', blank),
        (''processingStatus'', blank\<lparr>display := ''none''\<rparr>),
        (''processingResults'', blank\<lparr>display := ''none''\<rparr>),
        (''processedCount'', blank), (''categorizedCount'', blank),
        (''merchantsFound'', blank), (''confidenceScore'', blank),
        (''autoCategories'', blank\<lparr>checked := True\<rparr>),
        (''skipDuplicates'', blank\<lparr>checked := True\<rparr>),
        (''extractDates'', blank), (''detectMerchants'', blank\<lparr>checked := True\<rparr>)]"

definition page :: state where
  "page =
     \<lparr>currentFile = None, elements = page_elements, progressBar = Some (Text ''0%''),
      toasts = [], intervals = [], requests = [], uncaught = 0\<rparr>"

definition statement :: jsfile where
  "statement = \<lparr>file_name = ''statement.CSV'', file_type = [], file_size = 2048\<rparr>"

definition oversized :: jsfile where
  "oversized =
     \<lparr>file_name = ''ledger.json'', file_type = ''application/json'', file_size = 16777217\<rparr>"

definition picture :: jsfile where
  "picture = \<lparr>file_name = ''photo.png'', file_type = ''image/png'', file_size = 20000000\<rparr>"

subsection \<open>The specification's reading of validation\<close>

text \<open>
  The specification accepts a candidate whose declared MIME type is plain text, CSV or JSON,
  or whose name ends in \<^verbatim>\<open>.txt\<close>, \<^verbatim>\<open>.csv\<close> or \<^verbatim>\<open>.json\<close> compared case-insensitively,
  and whose size does not exceed 16 MiB. These definitions follow those words, with
  \<open>suffix\<close> on the lower-cased name; they are compared with \<open>validateFile\<close> below.
\<close>

definition lower_case :: "char \<Rightarrow> char" where
  "lower_case c =
     (let n = (of_char c :: nat) in if 65 \<le> n \<and> n \<le> 90 then char_of (n + 32) else c)"

definition type_or_extension_allowed :: "jsfile \<Rightarrow> bool" where
  "type_or_extension_allowed f =
     (file_type f = ''text/plain'' \<or> file_type f = ''text/csv''
      \<or> file_type f = ''application/json''
      \<or> suffix ''.txt'' (map lower_case (file_name f))
      \<or> suffix ''.csv'' (map lower_case (file_name f))
      \<or> suffix ''.json'' (map lower_case (file_name f)))"

definition spec_accepts :: "jsfile \<Rightarrow> bool" where
  "spec_accepts f = (type_or_extension_allowed f \<and> file_size f \<le> 16 * 2 ^ 20)"

text \<open>A character that \<open>canonicalize\<close> and \<open>lower_case\<close> treat alike: no upper-case letter.\<close>

definition plain :: "char \<Rightarrow> bool" where
  "plain q = (let n = (of_char q :: nat) in n < 65 \<or> (97 \<le> n \<and> n \<le> 122))"

subsection \<open>The specification's reading of the success message\<close>


text \<open>Responses of the backend used as examples.\<close>

definition summary :: jsval where
  "summary = JObj [(''success'', JStr ''42 transactions processed'')]"


definition huge_summary :: jsval where
  "huge_summary = JObj [(''success'', JStr ''1688849860263936 transactions processed'')]"

subsection \<open>A session on the example page\<close>

text \<open>
  The states the example page goes through when \<open>statement\<close> is chosen, the form is
  submitted, and the request then completes or fails. They are written out here and shown
  below to be the states the handlers produce.
\<close>

definition payload :: formdata where
  "payload =
     [(''file'', FileValue statement), (''autoCategories'', BoolValue True),
      (''skipDuplicates'', BoolValue True), (''extractDates'', BoolValue False),
      (''detectMerchants'', BoolValue True)]"

definition staged :: state where
  "staged =
     \<lparr>currentFile = Some statement,
      elements = page_elements
        (''fileName'' \<mapsto> blank\<lparr>textContent := Text ''statement.CSV''\<rparr>,
         ''fileSize'' \<mapsto> blank\<lparr>textContent := FileSizeText 2048\<rparr>,
         ''filePreview'' \<mapsto> blank\<lparr>display := ''block''\<rparr>,
         ''submitBtn'' \<mapsto> blank\<lparr>disabled := False\<rparr>),
      progressBar = Some (Text ''0%''), toasts = [], intervals = [], requests = [],
      uncaught = 0\<rparr>"

definition in_flight :: state where
  "in_flight =
     staged\<lparr>elements := (elements staged)
              (''uploadForm'' \<mapsto> blank\<lparr>display := ''none''\<rparr>,
               ''processingStatus'' \<mapsto> blank\<lparr>display := ''block''\<rparr>),
            intervals := [Some (Fin 0)],
            requests := [Some payload]\<rparr>"

definition completed :: state where
  "completed =
     in_flight\<lparr>elements := (elements in_flight)
                 (''processingStatus'' \<mapsto> blank\<lparr>display := ''none''\<rparr>,
                  ''processedCount'' \<mapsto> blank\<lparr>textContent := Text ''42''\<rparr>,
                  ''categorizedCount'' \<mapsto> blank\<lparr>textContent := NumberText (Fin 33)\<rparr>,
                  ''merchantsFound'' \<mapsto> blank\<lparr>textContent := NumberText (Fin 25)\<rparr>,
                  ''confidenceScore'' \<mapsto> blank\<lparr>textContent := Text ''85%''\<rparr>,
                  ''processingResults'' \<mapsto> blank\<lparr>display := ''block''\<rparr>),
               toasts := [(JStr ''42 transactions processed'', ''success'')],
               requests := [None]\<rparr>"

definition failed :: state where
  "failed =
     in_flight\<lparr>elements := (elements in_flight)
                 (''processingStatus'' \<mapsto> blank\<lparr>display := ''none''\<rparr>,
                  ''uploadForm'' \<mapsto> blank\<lparr>display := ''block''\<rparr>),
               toasts :=
                 [(JStr ''An error occurred while processing your file. Please try again.'',
                   ''danger'')],
               requests := [None]\<rparr>"

text \<open>A page without the processing indicator, with \<open>statement\<close> staged.\<close>

definition no_indicator :: state where
  "no_indicator = staged\<lparr>elements := (elements staged)(''processingStatus'' := None)\<rparr>"

text \<open>The timer an event fires, if it is a tick.\<close>

fun fires :: "event \<Rightarrow> nat option" where
  "fires (Tick i r) = Some i"
| "fires _ = None"

text \<open>The message of the \<^verbatim>\<open>catch\<close> block of \<open>handleSubmit\<close>.\<close>

definition generic_failure :: jsval where
  "generic_failure = JStr ''An error occurred while processing your file. Please try again.''"

section \<open>Properties\<close>

subsection \<open>The example page\<close>

lemma page_lookup:
  "page_elements ''fileInput'' = Some blank"
  "page_elements ''filePreview'' = Some (blank\<lparr>display := ''none''\<rparr>)"
  "page_elements ''fileName'' = Some blank"
  "page_elements ''fileSize'' = Some blank"
  "page_elements ''submitBtn'' = Some (blank\<lparr>disabled := True\<rparr>)"
  "page_elements ''uploadForm'' = Some blank"
  "page_elements ''processingStatus'' = Some (blank\<lparr>display := ''none''\<rparr>)"
  "page_elements ''processingResults'' = Some (blank\<lparr>display := ''none''\<rparr>)"
  "page_elements ''processedCount'' = Some blank"
  "page_elements ''categorizedCount'' = Some blank"
  "page_elements ''merchantsFound'' = Some blank"
  "page_elements ''confidenceScore'' = Some blank"
  "page_elements ''autoCategories'' = Some (blank\<lparr>checked := True\<rparr>)"
  "page_elements ''skipDuplicates'' = Some (blank\<lparr>checked := True\<rparr>)"
  "page_elements ''extractDates'' = Some blank"
  "page_elements ''detectMerchants'' = Some (blank\<lparr>checked := True\<rparr>)"
  by (simp_all add: page_elements_def)

lemma elements_page: "elements page = page_elements"
  by (simp add: page_def)

subsection \<open>Validation\<close>

lemma ends_with_suffix: "ends_with p xs = suffix p xs"
proof
  assume "ends_with p xs"
  then have "xs = take (length xs - length p) xs @ p"
    by (metis append_take_drop_id ends_with_def)
  then show "suffix p xs" by (metis suffixI)
next
  assume "suffix p xs"
  then obtain zs where "xs = zs @ p" by (auto simp: suffix_def)
  then show "ends_with p xs" by (simp add: ends_with_def)
qed

lemma of_char_canonicalize:
  "(of_char (canonicalize c) :: nat) =
     (if 97 \<le> (of_char c :: nat) \<and> (of_char c :: nat) \<le> 122 then of_char c - 32 else of_char c)"
  using nat_of_char_less_256 [of c] by (auto simp: canonicalize_def Let_def)

lemma of_char_lower_case:
  "(of_char (lower_case c) :: nat) =
     (if 65 \<le> (of_char c :: nat) \<and> (of_char c :: nat) \<le> 90 then of_char c + 32 else of_char c)"
  using nat_of_char_less_256 [of c] by (auto simp: lower_case_def Let_def)

lemma canonicalize_eq_iff:
  assumes "plain q"
  shows "(canonicalize c = canonicalize q) = (lower_case c = q)"
proof -
  have "(canonicalize c = canonicalize q)
        = ((of_char (canonicalize c) :: nat) = of_char (canonicalize q))"
    by simp
  also have "\<dots> = ((of_char (lower_case c) :: nat) = of_char q)"
    using assms unfolding of_char_canonicalize of_char_lower_case plain_def Let_def
    by (simp del: of_char_eq_iff split: if_splits) arith
  also have "\<dots> = (lower_case c = q)" by simp
  finally show ?thesis .
qed

lemma map_canonicalize_eq_iff:
  "list_all plain p \<Longrightarrow> (map canonicalize e = map canonicalize p) = (map lower_case e = p)"
proof (induction p arbitrary: e)
  case Nil
  then show ?case by simp
next
  case (Cons q p)
  then show ?case by (cases e) (auto simp: canonicalize_eq_iff)
qed

lemma ends_with_canonicalize:
  assumes "list_all plain p"
  shows "ends_with (map canonicalize p) (map canonicalize name) = suffix p (map lower_case name)"
proof -
  have "ends_with (map canonicalize p) (map canonicalize name)
        = (length p \<le> length name
           \<and> map canonicalize (drop (length name - length p) name) = map canonicalize p)"
    by (simp add: ends_with_def drop_map)
  also have "\<dots> = (length p \<le> length name
                   \<and> map lower_case (drop (length name - length p) name) = p)"
    using assms by (simp add: map_canonicalize_eq_iff)
  also have "\<dots> = ends_with p (map lower_case name)"
    by (simp add: ends_with_def drop_map)
  finally show ?thesis by (simp add: ends_with_suffix)
qed

lemma matches_extension_iff:
  "matches_extension name =
     (suffix ''.txt'' (map lower_case name) \<or> suffix ''.csv'' (map lower_case name)
      \<or> suffix ''.json'' (map lower_case name))"
proof -
  have "list_all plain ''.txt''" "list_all plain ''.csv''" "list_all plain ''.json''"
    by (simp_all add: plain_def)
  then show ?thesis
    unfolding matches_extension_def Let_def by (simp only: ends_with_canonicalize)
qed

lemma member_allowedTypes:
  "List.member allowedTypes t
   = (t = ''text/plain'' \<or> t = ''text/csv'' \<or> t = ''application/json'')"
  by (auto simp: allowedTypes_def)

lemma validateFile_type_test:
  "(List.member allowedTypes (file_type f) \<or> matches_extension (file_name f))
   = type_or_extension_allowed f"
  unfolding member_allowedTypes matches_extension_iff type_or_extension_allowed_def by blast

lemma showToast_string:
  "showToast (JStr message) type s = (Normal, s\<lparr>toasts := toasts s @ [(JStr message, type)]\<rparr>)"
  by (simp add: showToast_def)

lemma validateFile_cases:
  "validateFile f s = (Some True, s) \<and> spec_accepts f
   \<or> (\<exists>message. validateFile f s
                  = (Some False, s\<lparr>toasts := toasts s @ [(JStr message, ''warning'')]\<rparr>))
      \<and> \<not> spec_accepts f"
  using validateFile_type_test [of f]
  by (auto simp: validateFile_def spec_accepts_def maxSize_def showToast_string)

text \<open>Evaluation of the test files.\<close>

lemma eq_char_of_iff: "(c = char_of (n::nat)) = (take_bit 8 n = (of_char c :: nat))"
  using char_of_eq_iff [of n c] by auto

lemma validateFile_statement: "validateFile statement s = (Some True, s)"
  by (simp add: validateFile_def statement_def allowedTypes_def matches_extension_def
      ends_with_def canonicalize_def maxSize_def eq_char_of_iff)

lemma spec_accepts_statement: "spec_accepts statement"
  using validateFile_cases [of statement s] by (simp add: validateFile_statement)

lemma allowed_oversized: "type_or_extension_allowed oversized"
  by (simp add: type_or_extension_allowed_def oversized_def)

lemma not_allowed_picture: "\<not> type_or_extension_allowed picture"
proof -
  have "\<not> (List.member allowedTypes (file_type picture) \<or> matches_extension (file_name picture))"
    by (simp add: picture_def allowedTypes_def matches_extension_def ends_with_def
        canonicalize_def eq_char_of_iff)
  then show ?thesis unfolding validateFile_type_test .
qed

text \<open>
  C6: \<open>validateFile\<close> accepts a candidate exactly when its declared MIME type is one of
  \<^verbatim>\<open>text/plain\<close>, \<^verbatim>\<open>text/csv\<close>, \<^verbatim>\<open>application/json\<close> or its name ends in \<^verbatim>\<open>.txt\<close>,
  \<^verbatim>\<open>.csv\<close> or \<^verbatim>\<open>.json\<close> compared case-insensitively, and its size is at most 16 MiB. An
  accepted candidate leaves the state as it is; every other candidate is rejected with one
  notification of severity \<^verbatim>\<open>warning\<close>.
\<close>

theorem validateFile_accepts_iff:
  "fst (validateFile f s) = Some (spec_accepts f)
   \<and> (if spec_accepts f then snd (validateFile f s) = s
      else (\<exists>message. snd (validateFile f s)
                        = s\<lparr>toasts := toasts s @ [(JStr message, ''warning'')]\<rparr>))"
  using validateFile_type_test [of f]
  by (auto simp: validateFile_def spec_accepts_def maxSize_def showToast_string)

theorem validateFile_accepts_iff_witness:
  "fst (validateFile statement page) = Some True \<and> spec_accepts statement
   \<and> snd (validateFile statement page) = page
   \<and> fst (validateFile picture page) = Some False \<and> \<not> spec_accepts picture
   \<and> (\<exists>message. snd (validateFile picture page)
                     = page\<lparr>toasts := toasts page @ [(JStr message, ''warning'')]\<rparr>)"
proof -
  have "fst (validateFile statement page) = Some True"
    by (simp add: validateFile_statement)
  moreover have "\<not> spec_accepts picture"
    using not_allowed_picture by (simp add: spec_accepts_def)
  ultimately show ?thesis
    using validateFile_accepts_iff [of statement page] validateFile_accepts_iff [of picture page]
    by simp
qed

text \<open>
  C7: a file whose type or extension is allowed and whose size exceeds 16 MiB is rejected
  with the message about the size; a file whose type and extension are both disallowed is
  rejected with the message about the type, whatever its size; and a validation attempt
  shows exactly one notification when it rejects and none when it accepts.
\<close>

theorem validateFile_one_reason:
  "(type_or_extension_allowed f \<and> 16 * 2 ^ 20 < file_size f \<longrightarrow>
      validateFile f s =
        (Some False,
         s\<lparr>toasts := toasts s @ [(JStr ''File size must be less than 16MB'', ''warning'')]\<rparr>))
   \<and> (\<not> type_or_extension_allowed f \<longrightarrow>
      validateFile f s =
        (Some False,
         s\<lparr>toasts := toasts s
            @ [(JStr ''Please select a valid file type (.txt, .csv, .json)'', ''warning'')]\<rparr>))
   \<and> length (toasts (snd (validateFile f s)))
       = length (toasts s) + (if fst (validateFile f s) = Some True then 0 else 1)"
  using validateFile_type_test [of f]
  by (auto simp: validateFile_def maxSize_def showToast_string)

theorem validateFile_one_reason_witness:
  "validateFile oversized page =
     (Some False,
      page\<lparr>toasts := toasts page
         @ [(JStr ''File size must be less than 16MB'', ''warning'')]\<rparr>)
   \<and> validateFile picture page =
     (Some False,
      page\<lparr>toasts := toasts page
         @ [(JStr ''Please select a valid file type (.txt, .csv, .json)'', ''warning'')]\<rparr>)"
proof -
  have "16 * 2 ^ 20 < file_size oversized" by (simp add: oversized_def)
  then show ?thesis
    using allowed_oversized not_allowed_picture
      validateFile_one_reason [of oversized page] validateFile_one_reason [of picture page]
    by simp
qed

subsection \<open>The staged file\<close>

lemma currentFile_showFilePreview: "currentFile (showFilePreview f s) = currentFile s"
  by (simp add: showFilePreview_def split: option.splits)

text \<open>
  C8: the staged file is the one slot \<open>currentFile\<close>, so there is never more than one.
  Selecting a file that fails validation leaves the slot, and every element of the page, as
  it was; selecting a file that passes validation puts that file in the slot, whatever was
  there before.
\<close>

theorem handleFile_single_slot:
  "(spec_accepts f \<longrightarrow> currentFile (snd (handleFile f s)) = Some f)
   \<and> (\<not> spec_accepts f \<longrightarrow>
        fst (handleFile f s) = Normal
        \<and> currentFile (snd (handleFile f s)) = currentFile s
        \<and> elements (snd (handleFile f s)) = elements s)"
  using validateFile_cases [of f s]
  by (auto simp: handleFile_def Let_def currentFile_showFilePreview split: option.splits)

theorem handleFile_single_slot_witness:
  "currentFile (snd (handleFile statement (page\<lparr>currentFile := Some oversized\<rparr>))) = Some statement
   \<and> currentFile (snd (handleFile picture (page\<lparr>currentFile := Some oversized\<rparr>))) = Some oversized"
proof -
  have b: "\<not> spec_accepts picture"
    using not_allowed_picture by (simp add: spec_accepts_def)
  show ?thesis
    using spec_accepts_statement b
      handleFile_single_slot [of statement "page\<lparr>currentFile := Some oversized\<rparr>"]
      handleFile_single_slot [of picture "page\<lparr>currentFile := Some oversized\<rparr>"]
    by simp
qed

subsection \<open>Rounding to a double\<close>

text \<open>
  \<open>floor_log2\<close> is the binary exponent; a value in the normal range is rounded on the grid
  of its exponent; integers below \<open>2 ^ 53\<close> are doubles.
\<close>

lemma bitlen_pos: "0 < p \<Longrightarrow> 1 \<le> bitlen p"
  by (simp add: bitlen_alt_def)

lemma bitlen_powi_bounds:
  assumes "0 < p"
  shows "(2::rat) powi (bitlen p - 1) \<le> of_int p" and "of_int p < (2::rat) powi bitlen p"
proof -
  have b: "1 \<le> bitlen p" using assms by (rule bitlen_pos)
  from bitlen_bounds [OF assms]
  have lo: "2 ^ nat (bitlen p - 1) \<le> p" and hi: "p < 2 ^ nat (bitlen p)" by auto
  have "(of_int (2 ^ nat (bitlen p - 1)) :: rat) \<le> of_int p"
    using lo by (simp only: of_int_le_iff)
  then show "(2::rat) powi (bitlen p - 1) \<le> of_int p"
    using b by (simp add: power_int_def)
  have "(of_int p :: rat) < of_int (2 ^ nat (bitlen p))"
    using hi by (simp only: of_int_less_iff)
  then show "of_int p < (2::rat) powi bitlen p"
    using b by (simp add: power_int_def)
qed

lemma floor_log2_bounds:
  assumes "0 < x"
  shows "2 powi floor_log2 x \<le> x" and "x < 2 powi (floor_log2 x + 1)"
proof -
  obtain p q where pq: "quotient_of x = (p, q)" by (cases "quotient_of x")
  have q: "0 < q" using pq by (rule quotient_of_denom_pos)
  have x: "x = of_int p / of_int q" using pq by (rule quotient_of_div)
  have p: "0 < p"
    using assms q unfolding x by (simp add: zero_less_divide_iff)
  define k where "k = bitlen p - bitlen q"
  have lower: "2 powi (k - 1) \<le> x"
  proof -
    have "(2::rat) powi (k - 1) = 2 powi (bitlen p - 1) / 2 powi bitlen q"
      unfolding k_def by (simp add: power_int_diff)
    also have "\<dots> \<le> of_int p / 2 powi bitlen q"
      using bitlen_powi_bounds(1) [OF p] by (simp add: divide_right_mono)
    also have "\<dots> \<le> of_int p / of_int q"
      using bitlen_powi_bounds(2) [OF q] p q by (simp add: frac_le)
    finally show ?thesis unfolding x .
  qed
  have upper: "x < 2 powi (k + 1)"
  proof -
    have "x = of_int p / of_int q" by (rule x)
    also have "\<dots> < 2 powi bitlen p / of_int q"
      using bitlen_powi_bounds(2) [OF p] q by (simp add: divide_strict_right_mono)
    also have "\<dots> \<le> 2 powi bitlen p / 2 powi (bitlen q - 1)"
      using bitlen_powi_bounds(1) [OF q] by (simp add: frac_le)
    also have "\<dots> = 2 powi (k + 1)"
      unfolding k_def by (simp add: power_int_diff power_int_add)
    finally show ?thesis .
  qed
  have fl: "floor_log2 x = (if 2 powi k \<le> x then k else k - 1)"
    by (simp add: floor_log2_def pq k_def Let_def)
  show "2 powi floor_log2 x \<le> x" using lower by (simp add: fl)
  show "x < 2 powi (floor_log2 x + 1)" using upper by (auto simp: fl not_le)
qed

lemma floor_log2_eq:
  assumes "2 powi k \<le> x" and "x < 2 powi (k + 1)"
  shows "floor_log2 x = k"
proof -
  have "(0::rat) < 2 powi k" by (rule zero_less_power_int) simp
  then have pos: "0 < x" using assms(1) by (rule less_le_trans)
  have "(2::rat) powi floor_log2 x < 2 powi (k + 1)"
    using floor_log2_bounds(1) [OF pos] assms(2) by simp
  then have a: "floor_log2 x < k + 1"
    by (metis not_le power_int_increasing one_le_numeral)
  have "(2::rat) powi k < 2 powi (floor_log2 x + 1)"
    using floor_log2_bounds(2) [OF pos] assms(1) by simp
  then have b: "k < floor_log2 x + 1"
    by (metis not_le power_int_increasing one_le_numeral)
  from a b show ?thesis by simp
qed

lemma round_half_even_ge:
  assumes "of_int k \<le> y"
  shows "k \<le> round_half_even y"
proof -
  have "k \<le> \<lfloor>y\<rfloor>" using assms by (simp add: le_floor_iff)
  then show ?thesis by (simp add: round_half_even_def Let_def)
qed

lemma round_half_even_le_if_lt_half:
  assumes "y < of_int k + 1 / 2"
  shows "round_half_even y \<le> k"
proof -
  have f: "\<lfloor>y\<rfloor> \<le> k"
    using assms by (simp add: floor_le_iff)
  show ?thesis
  proof (cases "\<lfloor>y\<rfloor> = k")
    case True
    then have "y - of_int \<lfloor>y\<rfloor> < 1 / 2" using assms by simp
    then show ?thesis using True by (simp add: round_half_even_def Let_def)
  next
    case False
    then have "\<lfloor>y\<rfloor> + 1 \<le> k" using f by simp
    then show ?thesis by (simp add: round_half_even_def Let_def)
  qed
qed

lemma round_half_even_le:
  assumes "y \<le> of_int k"
  shows "round_half_even y \<le> k"
  using assms by (intro round_half_even_le_if_lt_half) simp

lemma round_half_even_ge_if_gt_half:
  assumes "of_int k - 1 / 2 < y"
  shows "k \<le> round_half_even y"
proof -
  have "of_int (k - 1) \<le> y" using assms by simp
  then have f: "k - 1 \<le> \<lfloor>y\<rfloor>" by (simp add: le_floor_iff)
  show ?thesis
  proof (cases "\<lfloor>y\<rfloor> = k - 1")
    case True
    then have "1 / 2 < y - of_int \<lfloor>y\<rfloor>" using assms by simp
    then show ?thesis using True by (simp add: round_half_even_def Let_def)
  next
    case False
    then have "k \<le> \<lfloor>y\<rfloor>" using f by simp
    then show ?thesis by (simp add: round_half_even_def Let_def)
  qed
qed


lemma round_double_normal:
  assumes lo: "2 powi (e + 52) \<le> x" and hi: "x < 2 powi (e + 53)"
    and e1: "- 1074 \<le> e" and e2: "e \<le> 970"
  shows "round_double x = Fin (of_int (round_half_even (x / 2 powi e)) * 2 powi e)"
proof -
  have p0: "(0::rat) < 2 powi e" by (rule zero_less_power_int) simp
  have "(0::rat) < 2 powi (e + 52)" by (rule zero_less_power_int) simp
  then have pos: "0 < x" using lo by (rule less_le_trans)
  have "x < 2 powi (e + 52 + 1)" using hi by (simp add: add.commute add.left_commute)
  with lo have fl: "floor_log2 x = e + 52" by (rule floor_log2_eq)
  have "2 powi (e + 53) = (2::rat) powi e * 2 ^ 53"
    by (simp add: power_int_add)
  then have "x / 2 powi e < of_int (2 ^ 53)"
    using hi p0 by (simp add: pos_divide_less_eq mult.commute)
  then have "round_half_even (x / 2 powi e) \<le> 2 ^ 53"
    by (intro round_half_even_le) simp
  then have "(of_int (round_half_even (x / 2 powi e)) :: rat) \<le> of_int (2 ^ 53)"
    by (simp only: of_int_le_iff)
  then have "of_int (round_half_even (x / 2 powi e)) * 2 powi e \<le> 2 ^ 53 * (2::rat) powi e"
    using p0 by (simp add: mult_right_mono)
  also have "\<dots> \<le> 2 ^ 53 * (2::rat) powi 970"
    using e2 by (simp add: power_int_increasing del: power_int_numeral)
  also have "\<dots> < 2 ^ 1024" by simp
  finally have v: "\<not> 2 ^ 1024 \<le> of_int (round_half_even (x / 2 powi e)) * (2::rat) powi e"
    by simp
  have m: "max e (- 1074) = e" using e1 by simp
  show ?thesis
    using pos v by (simp add: round_double_def fl m Let_def del: power_int_numeral)
qed

lemma round_double_scaled:
  assumes x1: "1 / 2 \<le> x" and x2: "x < 2 ^ (53 - j)" and j: "j \<le> 53"
  obtains n where "j \<le> n" and "n \<le> 53"
    and "round_double x = Fin (of_int (round_half_even (x * 2 ^ n)) / 2 ^ n)"
    and "x * 2 ^ n < 2 ^ 53"
proof -
  have pos: "0 < x" using x1 by simp
  define k where "k = floor_log2 x"
  have lo: "2 powi k \<le> x" and hi: "x < 2 powi (k + 1)"
    unfolding k_def using floor_log2_bounds [OF pos] by auto
  have "(2::rat) powi (- 1) < 2 powi (k + 1)"
    using x1 hi by simp
  then have "- 1 < k + 1"
    by (metis not_le power_int_increasing one_le_numeral)
  then have k1: "- 1 \<le> k" by simp
  have "(2::rat) powi k < 2 powi (int (53 - j))"
    using lo x2 by simp
  then have "k < int (53 - j)"
    by (metis not_le power_int_increasing one_le_numeral)
  then have k2: "k \<le> 52 - int j" using j by simp
  define n where "n = nat (52 - k)"
  have n: "int n = 52 - k" using k2 by (simp add: n_def)
  have e: "(2::rat) powi (k - 52) = 1 / 2 ^ n"
  proof -
    have "k - 52 = - int n" using n by simp
    then show ?thesis by (simp add: power_int_minus divide_inverse)
  qed
  have jn: "j \<le> n" using k2 n by simp
  have n53: "n \<le> 53" using k1 n by simp
  have "round_double x = Fin (of_int (round_half_even (x / 2 powi (k - 52))) * 2 powi (k - 52))"
    using lo hi k1 k2 by (intro round_double_normal) (simp_all add: add.commute)
  then have r: "round_double x = Fin (of_int (round_half_even (x * 2 ^ n)) / 2 ^ n)"
    by (simp add: e)
  have "(2::rat) powi (k + 1) = 2 ^ 53 / 2 ^ n"
  proof -
    have "k + 1 = 53 - int n" using n by simp
    then show ?thesis by (simp add: power_int_diff)
  qed
  then have s: "x * 2 ^ n < 2 ^ 53"
    using hi by (simp add: pos_less_divide_eq)
  from jn n53 r s show ?thesis by (rule that)
qed


lemma round_double_bracket:
  assumes x1: "1 / 2 \<le> x" and x2: "x < 2 ^ 51"
    and lo: "of_int M \<le> x" and hi: "x < of_int M + 7 / 8"
  shows "\<exists>v. round_double x = Fin v \<and> of_int M \<le> v \<and> v < of_int M + 1"
proof -
  have "x < 2 ^ (53 - 2)" using x2 by simp
  with x1 obtain n where n: "2 \<le> n"
    and r: "round_double x = Fin (of_int (round_half_even (x * 2 ^ n)) / 2 ^ n)"
    by (rule round_double_scaled) simp_all
  have p: "(0::rat) < 2 ^ n" by simp
  have "(2::rat) ^ 2 \<le> 2 ^ n" using n by (intro power_increasing) simp_all
  then have four: "(4::rat) \<le> 2 ^ n" by simp
  have "of_int (M * 2 ^ n) \<le> x * 2 ^ n"
    using lo p by (simp add: mult_right_mono)
  then have a: "M * 2 ^ n \<le> round_half_even (x * 2 ^ n)"
    by (rule round_half_even_ge)
  have "x * 2 ^ n < (of_int M + 7 / 8) * 2 ^ n"
    using hi p by (simp add: mult_strict_right_mono)
  also have "\<dots> = (of_int M + 1) * 2 ^ n - 2 ^ n / 8" by (simp add: algebra_simps)
  also have "\<dots> \<le> (of_int M + 1) * 2 ^ n - 1 / 2" using four by simp
  finally have "x * 2 ^ n < of_int ((M + 1) * 2 ^ n - 1) + 1 / 2" by simp
  then have b: "round_half_even (x * 2 ^ n) \<le> (M + 1) * 2 ^ n - 1"
    by (rule round_half_even_le_if_lt_half)
  define v :: rat where "v = of_int (round_half_even (x * 2 ^ n)) / 2 ^ n"
  have "(of_int (M * 2 ^ n) :: rat) \<le> of_int (round_half_even (x * 2 ^ n))"
    using a by (simp only: of_int_le_iff)
  then have v1: "of_int M \<le> v"
    using p by (simp add: v_def pos_le_divide_eq)
  have "(of_int (round_half_even (x * 2 ^ n)) :: rat) \<le> of_int ((M + 1) * 2 ^ n - 1)"
    using b by (simp only: of_int_le_iff)
  then have "(of_int (round_half_even (x * 2 ^ n)) :: rat) < (of_int M + 1) * 2 ^ n"
    by simp
  then have v2: "v < of_int M + 1"
    using p by (simp add: v_def pos_divide_less_eq)
  from r v1 v2 show ?thesis unfolding v_def by blast
qed

lemma round_double_near:
  assumes x1: "1 / 2 \<le> x" and x2: "x < 2 ^ 53"
    and le: "x \<le> of_int M" and near: "(of_int M - x) * 2 ^ 54 \<le> x"
  shows "round_double x = Fin (of_int M)"
proof -
  have "x < 2 ^ (53 - 0)" using x2 by simp
  with x1 obtain n where
    r: "round_double x = Fin (of_int (round_half_even (x * 2 ^ n)) / 2 ^ n)"
    and s: "x * 2 ^ n < 2 ^ 53"
    by (rule round_double_scaled) simp_all
  have p: "(0::rat) < 2 ^ n" by simp
  have "x * 2 ^ n \<le> of_int (M * 2 ^ n)"
    using le p by (simp add: mult_right_mono)
  then have a: "round_half_even (x * 2 ^ n) \<le> M * 2 ^ n"
    by (rule round_half_even_le)
  have "(of_int M - x) * 2 ^ 54 * 2 ^ n \<le> x * 2 ^ n"
    using near p by (simp only: mult_right_mono less_imp_le)
  also have "\<dots> < 2 ^ 53" by (rule s)
  finally have "(of_int M - x) * 2 ^ n * 2 ^ 54 < 2 ^ 53"
    by (simp only: mult.assoc mult.commute [of "2 ^ 54"])
  moreover define d where "d = (of_int M - x) * 2 ^ n"
  ultimately have "d * 2 ^ 54 < 2 ^ 53" by simp
  then have "d < 1 / 2" by simp
  then have "(of_int M - x) * 2 ^ n < 1 / 2" by (simp only: d_def)
  then have "of_int (M * 2 ^ n) - 1 / 2 < x * 2 ^ n"
    by (simp add: algebra_simps)
  then have b: "M * 2 ^ n \<le> round_half_even (x * 2 ^ n)"
    by (rule round_half_even_ge_if_gt_half)
  from a b have "round_half_even (x * 2 ^ n) = M * 2 ^ n" by simp
  then show ?thesis by (simp add: r)
qed

lemma round_double_of_nat:
  assumes "N < 2 ^ 53"
  shows "round_double (of_nat N) = Fin (of_nat N)"
proof (cases "N = 0")
  case True
  then show ?thesis by (simp add: round_double_def)
next
  case False
  then have "(1::rat) \<le> of_nat N" by simp
  then have a: "(1 / 2 :: rat) \<le> of_nat N" by simp
  have "(of_nat N :: rat) < of_nat (2 ^ 53)" using assms by (simp only: of_nat_less_iff)
  then have b: "(of_nat N :: rat) < 2 ^ 53" by simp
  have "round_double (of_nat N) = Fin (of_int (int N))"
    using a b by (intro round_double_near) simp_all
  then show ?thesis by simp
qed

lemma round_half_even_eval:
  assumes "of_int k - 1 / 2 < y" and "y < of_int k + 1 / 2"
  shows "round_half_even y = k"
  using round_half_even_ge_if_gt_half [OF assms(1)] round_half_even_le_if_lt_half [OF assms(2)]
  by simp

lemma lit_0_8_value: "lit_0_8 = Fin (3602879701896397 / 4503599627370496)"
proof -
  have "round_double (4 / 5)
        = Fin (of_int (round_half_even ((4 / 5) / 2 powi (- 53))) * 2 powi (- 53))"
    by (rule round_double_normal) simp_all
  moreover have "round_half_even ((4 / 5) / 2 powi (- 53)) = 7205759403792794"
    by (rule round_half_even_eval) simp_all
  ultimately show ?thesis by (simp add: lit_0_8_def)
qed

lemma lit_0_6_value: "lit_0_6 = Fin (5404319552844595 / 9007199254740992)"
proof -
  have "round_double (3 / 5)
        = Fin (of_int (round_half_even ((3 / 5) / 2 powi (- 53))) * 2 powi (- 53))"
    by (rule round_double_normal) simp_all
  moreover have "round_half_even ((3 / 5) / 2 powi (- 53)) = 5404319552844595"
    by (rule round_half_even_eval) simp_all
  ultimately show ?thesis by (simp add: lit_0_6_def)
qed

subsection \<open>The products with 0.8 and 0.6\<close>

lemma categorized_exact:
  assumes "N < 3 * 2 ^ 49"
  shows "Math_floor (dmul (Fin (of_nat N)) lit_0_8) = Fin (of_nat (N * 8 div 10))"
proof (cases "N = 0")
  case True
  then show ?thesis by (simp add: lit_0_8_value round_double_def)
next
  case False
  define x :: rat where "x = of_nat N * (3602879701896397 / 4503599627370496)"
  define M :: int where "M = int (N * 8 div 10)"
  have n1: "(1::rat) \<le> of_nat N" using False by simp
  have "(of_nat N :: rat) < of_nat (3 * 2 ^ 49)" using assms by (simp only: of_nat_less_iff)
  then have n2: "(of_nat N :: rat) < 1688849860263936" by simp
  have "10 * M \<le> 8 * int N" and "8 * int N \<le> 10 * M + 8"
    unfolding M_def by presburger+
  then have "(of_int (10 * M) :: rat) \<le> of_int (8 * int N)"
    and "(of_int (8 * int N) :: rat) \<le> of_int (10 * M + 8)"
    by (simp_all only: of_int_le_iff)
  then have m1: "10 * (of_int M :: rat) \<le> 8 * of_nat N"
    and m2: "8 * (of_nat N :: rat) \<le> 10 * of_int M + 8"
    by simp_all
  have "1 / 2 \<le> x" using n1 unfolding x_def by linarith
  moreover have "x < 2 ^ 51" using n2 unfolding x_def by simp
  moreover have "of_int M \<le> x" using m1 n1 unfolding x_def by linarith
  moreover have "x < of_int M + 7 / 8" using m2 n2 unfolding x_def by linarith
  ultimately obtain v where v: "round_double x = Fin v" "of_int M \<le> v" "v < of_int M + 1"
    using round_double_bracket by blast
  have "\<lfloor>v\<rfloor> = M" using v(2,3) by (simp add: floor_unique)
  then show ?thesis
    using v(1) by (simp add: lit_0_8_value x_def M_def)
qed

lemma merchants_exact:
  assumes "N < 3 * 2 ^ 49"
  shows "Math_floor (dmul (Fin (of_nat N)) lit_0_6) = Fin (of_nat (N * 6 div 10))"
proof (cases "N = 0")
  case True
  then show ?thesis by (simp add: lit_0_6_value round_double_def)
next
  case False
  define x :: rat where "x = of_nat N * (5404319552844595 / 9007199254740992)"
  define M :: int where "M = int (N * 6 div 10)"
  have n1: "(1::rat) \<le> of_nat N" using False by simp
  have "(of_nat N :: rat) < of_nat (3 * 2 ^ 49)" using assms by (simp only: of_nat_less_iff)
  then have n2: "(of_nat N :: rat) < 1688849860263936" by simp
  have x1: "1 / 2 \<le> x" using n1 unfolding x_def by linarith
  have x2: "x < 2 ^ 51" using n2 unfolding x_def by simp
  have "round_double x = Fin (of_int M) \<or> (\<exists>v. round_double x = Fin v \<and> of_int M \<le> v \<and> v < of_int M + 1)"
  proof (cases "N * 6 mod 10 = 0")
    case True
    then have "10 * M = 6 * int N" unfolding M_def by presburger
    then have "(of_int (10 * M) :: rat) = of_int (6 * int N)" by (simp only:)
    then have m: "10 * (of_int M :: rat) = 6 * of_nat N" by simp
    have "x < 2 ^ 53" using n2 unfolding x_def by simp
    moreover have "x \<le> of_int M" using m n1 unfolding x_def by linarith
    moreover have "(of_int M - x) * 2 ^ 54 \<le> x" using m n1 unfolding x_def by simp
    ultimately have "round_double x = Fin (of_int M)"
      using x1 by (intro round_double_near)
    then show ?thesis by blast
  next
    case False
    then have "10 * M + 2 \<le> 6 * int N" and "6 * int N \<le> 10 * M + 8"
      unfolding M_def by presburger+
    then have "(of_int (10 * M + 2) :: rat) \<le> of_int (6 * int N)"
      and "(of_int (6 * int N) :: rat) \<le> of_int (10 * M + 8)"
      by (simp_all only: of_int_le_iff)
    then have m1: "10 * (of_int M :: rat) + 2 \<le> 6 * of_nat N"
      and m2: "6 * (of_nat N :: rat) \<le> 10 * of_int M + 8"
      by simp_all
    have "of_int M \<le> x" using m1 n2 unfolding x_def by linarith
    moreover have "x < of_int M + 7 / 8" using m2 n1 unfolding x_def by linarith
    ultimately show ?thesis
      using x1 x2 round_double_bracket by blast
  qed
  then obtain v where v: "round_double x = Fin v" "of_int M \<le> v" "v < of_int M + 1"
    by auto
  have "\<lfloor>v\<rfloor> = M" using v(2,3) by (simp add: floor_unique)
  then show ?thesis
    using v(1) by (simp add: lit_0_6_value x_def M_def)
qed

subsection \<open>The digits handed to the multiplication\<close>

lemma match_here_digits:
  assumes "match_here str = Some ds"
  shows "ds \<noteq> [] \<and> list_all is_digit ds"
proof -
  from assms have "ds = takeWhile is_digit str" and "ds \<noteq> []"
    by (auto simp: match_here_def Let_def split: if_splits)
  then show ?thesis by (auto simp: list_all_iff dest: set_takeWhileD)
qed

lemma regex_match_digits:
  "regex_match str = Some ds \<Longrightarrow> ds \<noteq> [] \<and> list_all is_digit ds"
proof (induction str)
  case Nil
  then show ?case by simp
next
  case (Cons c cs)
  then show ?case
    by (cases "match_here (c # cs)") (auto dest: match_here_digits)
qed

lemma ToNumber_digits:
  assumes "ds \<noteq> []" and "list_all is_digit ds" and "decimal ds < 2 ^ 53"
  shows "ToNumber ds = Fin (of_nat (decimal ds))"
  using assms by (simp add: ToNumber_def round_double_of_nat)


subsection \<open>The count in the success message\<close>






subsection \<open>The writes of showResults\<close>

text \<open>What \<open>showResults\<close> writes for a message, given the count it found.\<close>

lemma showResults_render:
  assumes "elements s ''processingResults'' \<noteq> None"
    and "get_prop data ''success'' = Some v"
    and "(if truthy v then v else JStr []) = JStr message"
    and "(case regex_match message of Some ds \<Rightarrow> ds | None \<Rightarrow> ''0'') = count"
  shows "fst (showResults data s) = Normal
    \<and> map_option textContent (elements (snd (showResults data s)) ''processedCount'')
        = map_option (\<lambda>_. Text count) (elements s ''processedCount'')
    \<and> map_option textContent (elements (snd (showResults data s)) ''categorizedCount'')
        = map_option (\<lambda>_. NumberText (Math_floor (dmul (ToNumber count) lit_0_8)))
            (elements s ''categorizedCount'')
    \<and> map_option textContent (elements (snd (showResults data s)) ''merchantsFound'')
        = map_option (\<lambda>_. NumberText (Math_floor (dmul (ToNumber count) lit_0_6)))
            (elements s ''merchantsFound'')
    \<and> map_option textContent (elements (snd (showResults data s)) ''confidenceScore'')
        = map_option (\<lambda>_. Text ''85%'') (elements s ''confidenceScore'')
    \<and> map_option display (elements (snd (showResults data s)) ''processingResults'')
        = Some ''block''"
  using assms
  by (auto simp: showResults_def set_textContent_def set_display_def Let_def
      split: option.splits)

subsection \<open>What the result panel shows\<close>

lemma floor_four_fifths: "\<lfloor>(of_nat N :: rat) * (4 / 5)\<rfloor> = int (N * 8 div 10)"
proof -
  have "(of_nat N :: rat) * (4 / 5) = of_nat (N * 8) / of_nat 10" by simp
  then show ?thesis by (simp only: floor_divide_of_nat_eq)
qed

lemma floor_three_fifths: "\<lfloor>(of_nat N :: rat) * (3 / 5)\<rfloor> = int (N * 6 div 10)"
proof -
  have "(of_nat N :: rat) * (3 / 5) = of_nat (N * 6) / of_nat 10" by simp
  then show ?thesis by (simp only: floor_divide_of_nat_eq)
qed

text \<open>
  C5, as the code has it: when the first match of \<^verbatim>\<open><N> transactions\<close> in the success
  message has \<open>N < 3 * 2 ^ 49\<close> (1688849860263936), the result panel shows the digits of
  \<open>N\<close> as processed count, \<open>\<lfloor>N * 0.8\<rfloor>\<close> as categorized count, \<open>\<lfloor>N * 0.6\<rfloor>\<close> as merchants
  found and \<^verbatim>\<open>85%\<close> as confidence, each in its element when the page has it. The bound is
  there because the products are computed in double precision.
\<close>

theorem showResults_derived_stats:
  assumes "elements s ''processingResults'' \<noteq> None"
    and "get_prop data ''success'' = Some (JStr message)"
    and "regex_match message = Some ds"
    and "decimal ds < 3 * 2 ^ 49"
  shows "fst (showResults data s) = Normal
    \<and> map_option textContent (elements (snd (showResults data s)) ''processedCount'')
        = map_option (\<lambda>_. Text ds) (elements s ''processedCount'')
    \<and> map_option textContent (elements (snd (showResults data s)) ''categorizedCount'')
        = map_option (\<lambda>_. NumberText (Fin (of_int \<lfloor>(of_nat (decimal ds) :: rat) * (4 / 5)\<rfloor>)))
            (elements s ''categorizedCount'')
    \<and> map_option textContent (elements (snd (showResults data s)) ''merchantsFound'')
        = map_option (\<lambda>_. NumberText (Fin (of_int \<lfloor>(of_nat (decimal ds) :: rat) * (3 / 5)\<rfloor>)))
            (elements s ''merchantsFound'')
    \<and> map_option textContent (elements (snd (showResults data s)) ''confidenceScore'')
        = map_option (\<lambda>_. Text ''85%'') (elements s ''confidenceScore'')
    \<and> map_option display (elements (snd (showResults data s)) ''processingResults'')
        = Some ''block''"
proof -
  have d: "ds \<noteq> []" "list_all is_digit ds"
    using regex_match_digits [OF assms(3)] by auto
  have "decimal ds < 2 ^ 53" using assms(4) by simp
  then have n: "ToNumber ds = Fin (of_nat (decimal ds))"
    using d by (intro ToNumber_digits)
  have c: "Math_floor (dmul (ToNumber ds) lit_0_8) = Fin (of_int \<lfloor>(of_nat (decimal ds) :: rat) * (4 / 5)\<rfloor>)"
    unfolding n floor_four_fifths using categorized_exact [OF assms(4)]
    by (simp only: of_int_of_nat_eq)
  have m: "Math_floor (dmul (ToNumber ds) lit_0_6) = Fin (of_int \<lfloor>(of_nat (decimal ds) :: rat) * (3 / 5)\<rfloor>)"
    unfolding n floor_three_fifths using merchants_exact [OF assms(4)]
    by (simp only: of_int_of_nat_eq)
  have t: "(if truthy (JStr message) then JStr message else JStr []) = JStr message"
    by simp
  have r: "(case regex_match message of Some ds \<Rightarrow> ds | None \<Rightarrow> ''0'') = ds"
    by (simp add: assms(3))
  show ?thesis
    using showResults_render [OF assms(1) assms(2) t r] by (simp only: c m)
qed

lemma regex_match_42: "regex_match ''42 transactions processed'' = Some ''42''"
  by (simp add: match_here_def is_digit_def starts_with_def)


text \<open>
  The response \<^verbatim>\<open>{"success": "42 transactions processed"}\<close> shows 42, 33, 25 and
  \<^verbatim>\<open>85%\<close>.
\<close>

theorem showResults_derived_stats_witness:
  "fst (showResults summary page) = Normal
    \<and> map_option textContent (elements (snd (showResults summary page)) ''processedCount'')
        = Some (Text ''42'')
    \<and> map_option textContent (elements (snd (showResults summary page)) ''categorizedCount'')
        = Some (NumberText (Fin 33))
    \<and> map_option textContent (elements (snd (showResults summary page)) ''merchantsFound'')
        = Some (NumberText (Fin 25))
    \<and> map_option textContent (elements (snd (showResults summary page)) ''confidenceScore'')
        = Some (Text ''85%'')
    \<and> map_option display (elements (snd (showResults summary page)) ''processingResults'')
        = Some ''block''"
proof -
  have a: "elements page ''processingResults'' \<noteq> None" by (simp add: elements_page page_lookup)
  have b: "get_prop summary ''success'' = Some (JStr ''42 transactions processed'')"
    by (simp add: summary_def)
  have c: "decimal ''42'' < 3 * 2 ^ 49" by (simp add: decimal_def)
  have d: "decimal ''42'' = 42" by (simp add: decimal_def)
  have e: "\<lfloor>(of_nat 42 :: rat) * (4 / 5)\<rfloor> = 33" "\<lfloor>(of_nat 42 :: rat) * (3 / 5)\<rfloor> = 25"
    by (simp_all only: floor_four_fifths floor_three_fifths)
  show ?thesis
    using showResults_derived_stats [OF a b regex_match_42 c]
    unfolding d e by (simp add: elements_page page_lookup)
qed

lemma regex_match_huge:
  "regex_match ''1688849860263936 transactions processed'' = Some ''1688849860263936''"
  by (simp add: match_here_def is_digit_def starts_with_def)

lemma categorized_huge:
  "Math_floor (dmul (ToNumber ''1688849860263936'') lit_0_8) = Fin 1351079888211149"
proof -
  have "ToNumber ''1688849860263936'' = Fin (of_nat (decimal ''1688849860263936''))"
    by (rule ToNumber_digits) (simp_all add: is_digit_def decimal_def)
  then have n: "ToNumber ''1688849860263936'' = Fin 1688849860263936"
    by (simp add: decimal_def)
  have "round_double (10808639105689191 / 8)
        = Fin (of_int (round_half_even ((10808639105689191 / 8) / 2 powi (- 2))) * 2 powi (- 2))"
    by (rule round_double_normal) simp_all
  moreover have "\<lfloor>(10808639105689191 :: rat) / 2\<rfloor> = 5404319552844595"
    by (rule floor_unique) simp_all
  then have "round_half_even ((10808639105689191 / 8) / 2 powi (- 2)) = 5404319552844596"
    by (simp add: round_half_even_def)
  ultimately have "round_double (10808639105689191 / 8) = Fin 1351079888211149" by simp
  then show ?thesis by (simp add: n lit_0_8_value)
qed

text \<open>
  Without the bound the property fails: for \<open>N = 3 * 2 ^ 49\<close> the double product
  \<^verbatim>\<open>N * 0.8\<close> is 1351079888211149 exactly (a tie, rounded to even), one more than
  \<open>\<lfloor>N * 0.8\<rfloor>\<close>.
\<close>

theorem showResults_derived_stats_counterexample:
  "map_option textContent (elements (snd (showResults huge_summary page)) ''categorizedCount'')
     = Some (NumberText (Fin 1351079888211149))
   \<and> \<lfloor>(1688849860263936 :: rat) * (4 / 5)\<rfloor> = 1351079888211148
   \<and> map_option textContent (elements (snd (showResults huge_summary page)) ''categorizedCount'')
     \<noteq> Some (NumberText (Fin (of_int \<lfloor>(1688849860263936 :: rat) * (4 / 5)\<rfloor>)))"
proof -
  have a: "elements page ''processingResults'' \<noteq> None" by (simp add: elements_page page_lookup)
  have b: "get_prop huge_summary ''success'' = Some (JStr ''1688849860263936 transactions processed'')"
    by (simp add: huge_summary_def)
  have t: "(if truthy (JStr ''1688849860263936 transactions processed'')
            then JStr ''1688849860263936 transactions processed'' else JStr [])
           = JStr ''1688849860263936 transactions processed''"
    by simp
  have r: "(case regex_match ''1688849860263936 transactions processed'' of
              Some ds \<Rightarrow> ds | None \<Rightarrow> ''0'') = ''1688849860263936''"
    by (simp only: regex_match_huge option.case)
  have f: "\<lfloor>(1688849860263936 :: rat) * (4 / 5)\<rfloor> = 1351079888211148"
    by (rule floor_unique) simp_all
  have c: "map_option textContent
             (elements (snd (showResults huge_summary page)) ''categorizedCount'')
           = Some (NumberText (Fin 1351079888211149))"
    using showResults_render [OF a b t r] by (simp add: categorized_huge elements_page page_lookup)
  show ?thesis by (simp only: c f) simp
qed




subsection \<open>The session on the example page\<close>

text \<open>The equations that evaluate one handler on a state that is written out.\<close>

lemmas handler_defs = handleDrop_def handleFile_def validateFile_statement
  showFilePreview_def handleSubmit_def showProcessingState_def set_display_def
  simulateProgress_def build_formData_def options_def List.map_filter_def
  hideProcessingState_def showUploadForm_def handleSubmit_resume_def handleSubmit_try_def
  handleSubmit_catch_def finish_def showToast_string Let_def page_lookup

lemma statement_fields:
  "file_name statement = ''statement.CSV''" "file_size statement = 2048"
  by (simp_all add: statement_def)

lemma blank_fields: "\<not> checked blank" "\<not> disabled blank" "display blank = []"
  by (simp_all add: blank_def)

lemma step_staged: "step (Change [statement]) page = staged"
  by (simp add: handler_defs page_def staged_def statement_fields)

lemma step_in_flight: "step Submit staged = in_flight"
  by (simp add: handler_defs in_flight_def staged_def payload_def blank_fields)

lemma stats_42:
  "Math_floor (dmul (ToNumber ''42'') lit_0_8) = Fin 33"
  "Math_floor (dmul (ToNumber ''42'') lit_0_6) = Fin 25"
proof -
  have n: "ToNumber ''42'' = Fin (of_nat 42)"
    using ToNumber_digits [of "''42''"] by (simp add: is_digit_def decimal_def)
  have "(42::nat) < 3 * 2 ^ 49" by simp
  from categorized_exact [OF this] merchants_exact [OF this]
  show "Math_floor (dmul (ToNumber ''42'') lit_0_8) = Fin 33"
    and "Math_floor (dmul (ToNumber ''42'') lit_0_6) = Fin 25"
    unfolding n by simp_all
qed

lemma step_completed: "step (Settle 0 (Response status (Json summary))) in_flight = completed"
  by (simp add: handler_defs in_flight_def staged_def completed_def summary_def
      showResults_def set_textContent_def regex_match_42 stats_42 del: regex_match.simps)

lemma step_failed: "step (Settle 0 NetworkError) in_flight = failed"
  by (simp add: handler_defs in_flight_def staged_def failed_def)

lemma run_in_flight: "run [Change [statement], Submit] page = in_flight"
  by (simp add: run_def step_staged step_in_flight del: step.simps)

lemma run_completed:
  "run [Change [statement], Submit, Settle 0 (Response status (Json summary))] page = completed"
  by (simp add: run_def step_staged step_in_flight step_completed del: step.simps)

lemma run_failed: "run [Change [statement], Submit, Settle 0 NetworkError] page = failed"
  by (simp add: run_def step_staged step_in_flight step_failed del: step.simps)

subsection \<open>Reset\<close>

text \<open>
  C9, as the code has it: after \<open>clearFile\<close> no file is staged, the file input is
  emptied, the file-preview panel is hidden and the submit control is disabled (each when
  the page has the element). The result panel, the upload form and the processing
  indicator are left as they were, and so are the requests in flight and the timers.
\<close>

theorem clearFile_effect:
  "currentFile (clearFile s) = None
   \<and> map_option input_value (elements (clearFile s) ''fileInput'')
       = map_option (\<lambda>_. []) (elements s ''fileInput'')
   \<and> map_option display (elements (clearFile s) ''filePreview'')
       = map_option (\<lambda>_. ''none'') (elements s ''filePreview'')
   \<and> map_option disabled (elements (clearFile s) ''submitBtn'')
       = map_option (\<lambda>_. True) (elements s ''submitBtn'')
   \<and> elements (clearFile s) ''processingResults'' = elements s ''processingResults''
   \<and> elements (clearFile s) ''uploadForm'' = elements s ''uploadForm''
   \<and> elements (clearFile s) ''processingStatus'' = elements s ''processingStatus''
   \<and> requests (clearFile s) = requests s
   \<and> intervals (clearFile s) = intervals s"
  by (auto simp: clearFile_def Let_def split: option.splits)

text \<open>
  The result panel is not hidden by \<open>clearFile\<close>: after a completed upload it is shown,
  and it is still shown after the reset.
\<close>

theorem clearFile_counterexample:
  "run [Change [statement], Submit, Settle 0 (Response 200 (Json summary))] page = completed
   \<and> map_option display (elements completed ''processingResults'') = Some ''block''
   \<and> map_option display (elements (clearFile completed) ''processingResults'') = Some ''block''
   \<and> map_option display (elements (clearFile completed) ''processingResults'') \<noteq> Some ''none''"
  by (simp add: run_completed)
    (simp add: clearFile_def completed_def in_flight_def staged_def page_lookup Let_def)

subsection \<open>The request sent by a submission\<close>

lemma map_fst_map_filter:
  "map fst (List.map_filter (\<lambda>k. case m k of None \<Rightarrow> None | Some c \<Rightarrow> Some (k, g c)) ks)
   = filter (\<lambda>k. m k \<noteq> None) ks"
  by (induction ks) (auto simp: List.map_filter_simps split: option.splits)

lemma map_of_map_filter:
  "map_of (List.map_filter (\<lambda>k. case m k of None \<Rightarrow> None | Some c \<Rightarrow> Some (k, g c)) ks) k
   = (if List.member ks k then map_option g (m k) else None)"
  by (induction ks) (auto simp: List.map_filter_simps split: option.splits)

lemma build_formData_names:
  "map fst (build_formData f s)
   = ''file'' # filter (\<lambda>opt. elements s opt \<noteq> None) options"
  by (simp add: build_formData_def map_fst_map_filter)

lemma build_formData_lookup:
  "map_of (build_formData f s) k
   = (if k = ''file'' then Some (FileValue f)
      else if List.member options k then map_option (\<lambda>c. BoolValue (checked c)) (elements s k)
      else None)"
  by (simp add: build_formData_def map_of_map_filter)

lemma handleSubmit_request:
  assumes "currentFile s = Some f"
    and "elements s ''uploadForm'' \<noteq> None"
    and "elements s ''processingStatus'' \<noteq> None"
  shows "fst (handleSubmit s) = Normal"
    and "requests (snd (handleSubmit s)) = requests s @ [Some (build_formData f s)]"
    and "intervals (snd (handleSubmit s))
         = intervals s @ (if progressBar s = None then [] else [Some (Fin 0)])"
    and "map_option display (elements (snd (handleSubmit s)) ''uploadForm'') = Some ''none''"
proof -
  obtain uf ps where e: "elements s ''uploadForm'' = Some uf" "elements s ''processingStatus'' = Some ps"
    using assms(2,3) by auto
  have "showProcessingState s
        = (Normal, simulateProgress (s\<lparr>elements := (elements s)
             (''uploadForm'' \<mapsto> uf\<lparr>display := ''none''\<rparr>,
              ''processingStatus'' \<mapsto> ps\<lparr>display := ''block''\<rparr>)\<rparr>))"
    by (simp add: showProcessingState_def set_display_def e)
  then have h: "handleSubmit s
        = (Normal, (simulateProgress (s\<lparr>elements := (elements s)
             (''uploadForm'' \<mapsto> uf\<lparr>display := ''none''\<rparr>,
              ''processingStatus'' \<mapsto> ps\<lparr>display := ''block''\<rparr>)\<rparr>))
            \<lparr>requests := requests (simulateProgress (s\<lparr>elements := (elements s)
             (''uploadForm'' \<mapsto> uf\<lparr>display := ''none''\<rparr>,
              ''processingStatus'' \<mapsto> ps\<lparr>display := ''block''\<rparr>)\<rparr>)) @ [Some (build_formData f s)]\<rparr>)"
    by (simp add: handleSubmit_def assms(1) Let_def)
  show "fst (handleSubmit s) = Normal" by (simp add: h)
  show "requests (snd (handleSubmit s)) = requests s @ [Some (build_formData f s)]"
    by (simp add: h simulateProgress_def split: option.splits)
  show "intervals (snd (handleSubmit s))
         = intervals s @ (if progressBar s = None then [] else [Some (Fin 0)])"
    by (simp add: h simulateProgress_def split: option.splits)
  show "map_option display (elements (snd (handleSubmit s)) ''uploadForm'') = Some ''none''"
    by (simp add: h simulateProgress_def split: option.splits)
qed

text \<open>
  C4, as the code has it: with a file staged and the upload form and processing indicator
  on the page, \<open>handleSubmit\<close> sends one request whose form data holds the staged file
  under \<^verbatim>\<open>file\<close> and, for each of the names \<^verbatim>\<open>autoCategories\<close>, \<^verbatim>\<open>skipDuplicates\<close>,
  \<^verbatim>\<open>extractDates\<close> and \<^verbatim>\<open>detectMerchants\<close> whose checkbox the page has, exactly one field of
  that name holding the checkbox's state; a name whose checkbox is missing has no field.
\<close>

theorem handleSubmit_payload:
  assumes "currentFile s = Some f"
    and "elements s ''uploadForm'' \<noteq> None"
    and "elements s ''processingStatus'' \<noteq> None"
  shows "fst (handleSubmit s) = Normal
    \<and> requests (snd (handleSubmit s)) = requests s @ [Some (build_formData f s)]
    \<and> distinct (map fst (build_formData f s))
    \<and> set (map fst (build_formData f s))
        = insert ''file''
            {opt. List.member
                    [''autoCategories'', ''skipDuplicates'', ''extractDates'', ''detectMerchants'']
                    opt
                  \<and> elements s opt \<noteq> None}
    \<and> map_of (build_formData f s) ''file'' = Some (FileValue f)
    \<and> map_of (build_formData f s) ''autoCategories''
        = map_option (\<lambda>c. BoolValue (checked c)) (elements s ''autoCategories'')
    \<and> map_of (build_formData f s) ''skipDuplicates''
        = map_option (\<lambda>c. BoolValue (checked c)) (elements s ''skipDuplicates'')
    \<and> map_of (build_formData f s) ''extractDates''
        = map_option (\<lambda>c. BoolValue (checked c)) (elements s ''extractDates'')
    \<and> map_of (build_formData f s) ''detectMerchants''
        = map_option (\<lambda>c. BoolValue (checked c)) (elements s ''detectMerchants'')"
proof -
  have b: "distinct (map fst (build_formData f s))"
    unfolding build_formData_names by (simp add: options_def)
  have "set (map fst (build_formData f s))
        = insert ''file'' {opt. List.member options opt \<and> elements s opt \<noteq> None}"
    unfolding build_formData_names by auto
  then have c: "set (map fst (build_formData f s))
        = insert ''file''
            {opt. List.member
                    [''autoCategories'', ''skipDuplicates'', ''extractDates'', ''detectMerchants'']
                    opt
                  \<and> elements s opt \<noteq> None}"
    by (simp only: options_def)
  have d: "map_of (build_formData f s) ''file'' = Some (FileValue f)"
    by (simp add: build_formData_lookup)
  have e: "map_of (build_formData f s) ''autoCategories''
        = map_option (\<lambda>c. BoolValue (checked c)) (elements s ''autoCategories'')"
    "map_of (build_formData f s) ''skipDuplicates''
        = map_option (\<lambda>c. BoolValue (checked c)) (elements s ''skipDuplicates'')"
    "map_of (build_formData f s) ''extractDates''
        = map_option (\<lambda>c. BoolValue (checked c)) (elements s ''extractDates'')"
    "map_of (build_formData f s) ''detectMerchants''
        = map_option (\<lambda>c. BoolValue (checked c)) (elements s ''detectMerchants'')"
    by (simp_all add: build_formData_lookup options_def)
  from handleSubmit_request(1,2) [OF assms] b c d e show ?thesis by (simp only: simp_thms)
qed

lemma staged_lookup:
  "currentFile staged = Some statement"
  "elements staged ''uploadForm'' = Some blank"
  "elements staged ''processingStatus'' = Some (blank\<lparr>display := ''none''\<rparr>)"
  "elements staged ''extractDates'' = Some blank"
  "requests staged = []"
  by (simp_all add: staged_def page_lookup)

lemma in_flight_lookup:
  "currentFile in_flight = Some statement"
  "elements in_flight ''uploadForm'' = Some (blank\<lparr>display := ''none''\<rparr>)"
  "elements in_flight ''processingStatus'' = Some (blank\<lparr>display := ''block''\<rparr>)"
  "requests in_flight = [Some payload]"
  "intervals in_flight = [Some (Fin 0)]"
  by (simp_all add: in_flight_def staged_def page_lookup)

theorem handleSubmit_payload_witness:
  "fst (handleSubmit staged) = Normal
   \<and> requests (snd (handleSubmit staged)) = [Some (build_formData statement staged)]
   \<and> map_of (build_formData statement staged) ''file'' = Some (FileValue statement)
   \<and> map_of (build_formData statement staged) ''extractDates'' = Some (BoolValue False)"
proof -
  have "elements staged ''uploadForm'' \<noteq> None" "elements staged ''processingStatus'' \<noteq> None"
    by (simp_all add: staged_lookup)
  from handleSubmit_payload [OF staged_lookup(1) this] show ?thesis
    by (simp add: staged_lookup blank_fields)
qed

text \<open>
  On the example page the request has no field \<^verbatim>\<open>autoCategorize\<close>: the first option is
  sent as \<^verbatim>\<open>autoCategories\<close>.
\<close>

theorem handleSubmit_payload_counterexample:
  "requests (run [Change [statement], Submit] page) = [Some payload]
   \<and> map fst payload
       = [''file'', ''autoCategories'', ''skipDuplicates'', ''extractDates'', ''detectMerchants'']
   \<and> \<not> List.member (map fst payload) ''autoCategorize''"
  by (simp add: run_in_flight in_flight_lookup) (simp add: payload_def)

subsection \<open>Submitting while a request is in flight\<close>

lemma handleSubmit_raises:
  assumes "currentFile s = Some f"
    and "elements s ''uploadForm'' = None \<or> elements s ''processingStatus'' = None"
  shows "fst (handleSubmit s) = Throw"
    and "requests (snd (handleSubmit s)) = requests s"
    and "intervals (snd (handleSubmit s)) = intervals s"
    and "uncaught (snd (handleSubmit s)) = uncaught s"
  using assms
  by (auto simp: handleSubmit_def showProcessingState_def set_display_def Let_def
      split: option.splits)

text \<open>
  C1, as the code has it: \<open>handleSubmit\<close> has no guard on a request in flight. With a file
  staged and the upload form and processing indicator on the page, every submission sends
  one more request, starts one more progress timer (when the page has a progress bar) and
  hides the upload form, whether or not the controller is already submitting. It sends no
  request in two cases only: when no file is staged, where it shows a warning and changes
  nothing else, and when the page lacks the upload form or the processing indicator, where
  it raises before the request is made.
\<close>

theorem submit_no_in_flight_guard:
  "(currentFile s = None \<longrightarrow>
      step Submit s
      = s\<lparr>toasts := toasts s @ [(JStr ''Please select a file to upload'', ''warning'')]\<rparr>)
   \<and> (currentFile s = Some f
        \<and> (elements s ''uploadForm'' = None \<or> elements s ''processingStatus'' = None) \<longrightarrow>
      requests (step Submit s) = requests s
      \<and> intervals (step Submit s) = intervals s
      \<and> uncaught (step Submit s) = uncaught s + 1)
   \<and> (currentFile s = Some f \<and> elements s ''uploadForm'' \<noteq> None
        \<and> elements s ''processingStatus'' \<noteq> None \<longrightarrow>
      requests (step Submit s) = requests s @ [Some (build_formData f s)]
      \<and> intervals (step Submit s)
          = intervals s @ (if progressBar s = None then [] else [Some (Fin 0)])
      \<and> submitting (step Submit s)
      \<and> map_option display (elements (step Submit s) ''uploadForm'') = Some ''none'')"
proof (intro conjI impI)
  assume "currentFile s = None"
  then show "step Submit s
      = s\<lparr>toasts := toasts s @ [(JStr ''Please select a file to upload'', ''warning'')]\<rparr>"
    by (simp add: handleSubmit_def finish_def showToast_string)
next
  assume a: "currentFile s = Some f
        \<and> (elements s ''uploadForm'' = None \<or> elements s ''processingStatus'' = None)"
  then have t: "fst (handleSubmit s) = Throw"
    and r: "requests (snd (handleSubmit s)) = requests s"
    and i: "intervals (snd (handleSubmit s)) = intervals s"
    and u: "uncaught (snd (handleSubmit s)) = uncaught s"
    using handleSubmit_raises [of s f] by auto
  have st: "step Submit s = (snd (handleSubmit s))\<lparr>uncaught := uncaught (snd (handleSubmit s)) + 1\<rparr>"
    using t by (cases "handleSubmit s") (simp add: finish_def)
  show "requests (step Submit s) = requests s" by (simp add: st r del: step.simps)
  show "intervals (step Submit s) = intervals s" by (simp add: st i del: step.simps)
  show "uncaught (step Submit s) = uncaught s + 1" by (simp add: st u del: step.simps)
next
  assume a: "currentFile s = Some f \<and> elements s ''uploadForm'' \<noteq> None
        \<and> elements s ''processingStatus'' \<noteq> None"
  then have n: "fst (handleSubmit s) = Normal"
    and r: "requests (snd (handleSubmit s)) = requests s @ [Some (build_formData f s)]"
    and i: "intervals (snd (handleSubmit s))
         = intervals s @ (if progressBar s = None then [] else [Some (Fin 0)])"
    and u: "map_option display (elements (snd (handleSubmit s)) ''uploadForm'') = Some ''none''"
    using handleSubmit_request [of s f] by auto
  have st: "step Submit s = snd (handleSubmit s)"
    using n by (cases "handleSubmit s") (simp add: finish_def)
  show "requests (step Submit s) = requests s @ [Some (build_formData f s)]"
    by (simp only: st r)
  show "intervals (step Submit s)
          = intervals s @ (if progressBar s = None then [] else [Some (Fin 0)])"
    by (simp only: st i)
  have "requests (step Submit s) \<noteq> [] \<and> last (requests (step Submit s)) \<noteq> None"
    by (simp only: st r) simp
  then show "submitting (step Submit s)"
    unfolding submitting_def list_ex_iff by (metis last_in_set)
  show "map_option display (elements (step Submit s) ''uploadForm'') = Some ''none''"
    by (simp only: st u)
qed

theorem submit_no_in_flight_guard_witness:
  "submitting in_flight
   \<and> requests (step Submit in_flight) = [Some payload, Some (build_formData statement in_flight)]
   \<and> intervals (step Submit in_flight) = [Some (Fin 0), Some (Fin 0)]
   \<and> step Submit page
       = page\<lparr>toasts := toasts page @ [(JStr ''Please select a file to upload'', ''warning'')]\<rparr>
   \<and> requests (step Submit no_indicator) = []
   \<and> uncaught (step Submit no_indicator) = 1"
proof -
  have a: "currentFile in_flight = Some statement \<and> elements in_flight ''uploadForm'' \<noteq> None
        \<and> elements in_flight ''processingStatus'' \<noteq> None"
    by (simp add: in_flight_lookup)
  have b: "currentFile page = None" by (simp add: page_def)
  have c: "progressBar in_flight \<noteq> None" by (simp add: in_flight_def staged_def)
  have d: "submitting in_flight" by (simp add: submitting_def in_flight_lookup)
  have e: "currentFile no_indicator = Some statement
        \<and> (elements no_indicator ''uploadForm'' = None
            \<or> elements no_indicator ''processingStatus'' = None)"
    "requests no_indicator = []" "uncaught no_indicator = 0"
    by (simp_all add: no_indicator_def staged_def)
  show ?thesis
    using submit_no_in_flight_guard [of in_flight statement]
      submit_no_in_flight_guard [of page statement]
      submit_no_in_flight_guard [of no_indicator statement] a b c d e
    by (simp add: in_flight_lookup del: step.simps)
qed

text \<open>
  A second submission while the first request is in flight sends a second request, so it is
  no no-op.
\<close>

theorem submit_while_submitting_counterexample:
  "run [Change [statement], Submit] page = in_flight
   \<and> submitting in_flight
   \<and> requests (step Submit in_flight) = [Some payload, Some payload]
   \<and> step Submit in_flight \<noteq> in_flight"
proof -
  have a: "requests (step Submit in_flight) = [Some payload, Some payload]"
    by (simp add: handler_defs in_flight_def staged_def payload_def blank_fields)
  have "requests (step Submit in_flight) \<noteq> requests in_flight"
    unfolding a by (simp add: in_flight_lookup)
  then have "step Submit in_flight \<noteq> in_flight" by auto
  then show ?thesis
    using a by (simp add: run_in_flight submitting_def in_flight_lookup)
qed

subsection \<open>Timers\<close>

lemma intervals_set_display:
  "set_display k v s = (c, s') \<Longrightarrow> intervals s' = intervals s"
  by (auto simp: set_display_def split: option.splits)

lemma intervals_set_textContent [simp]:
  "intervals (set_textContent k v s) = intervals s"
  by (simp add: set_textContent_def split: option.splits)

lemma intervals_showToast: "showToast m t s = (c, s') \<Longrightarrow> intervals s' = intervals s"
  by (auto simp: showToast_def split: if_splits)

lemma intervals_validateFile: "validateFile f s = (b, s') \<Longrightarrow> intervals s' = intervals s"
  by (auto simp: validateFile_def showToast_string split: if_splits)

lemma intervals_showFilePreview [simp]: "intervals (showFilePreview f s) = intervals s"
  by (simp add: showFilePreview_def split: option.splits)

lemma intervals_handleFile: "handleFile f s = (c, s') \<Longrightarrow> intervals s' = intervals s"
  by (auto simp: handleFile_def Let_def split: prod.splits bool.splits option.splits
      dest: intervals_validateFile)

lemma intervals_handleDrop: "handleDrop fs s = (c, s') \<Longrightarrow> intervals s' = intervals s"
  by (auto simp: handleDrop_def split: list.splits dest: intervals_handleFile)

lemma intervals_showResults: "showResults data s = (c, s') \<Longrightarrow> intervals s' = intervals s"
  by (auto simp: showResults_def Let_def split: option.splits jsval.splits if_splits
      dest!: intervals_set_display)

lemma intervals_hideProcessingState:
  "hideProcessingState s = (c, s') \<Longrightarrow> intervals s' = intervals s"
  unfolding hideProcessingState_def by (rule intervals_set_display)

lemma intervals_showUploadForm:
  "showUploadForm s = (c, s') \<Longrightarrow> intervals s' = intervals s"
  unfolding showUploadForm_def by (rule intervals_set_display)

lemma intervals_handleSubmit_catch:
  "handleSubmit_catch s = (c, s') \<Longrightarrow> intervals s' = intervals s"
  by (auto simp: handleSubmit_catch_def split: prod.splits completion.splits
      dest!: intervals_hideProcessingState intervals_showUploadForm intervals_showToast)

lemma intervals_handleSubmit_try:
  "handleSubmit_try outcome s = (c, s') \<Longrightarrow> intervals s' = intervals s"
  by (auto simp: handleSubmit_try_def
      split: fetch_outcome.splits body.splits prod.splits completion.splits option.splits if_splits
      dest!: intervals_hideProcessingState intervals_showUploadForm intervals_showResults
        intervals_showToast)

lemma intervals_handleSubmit_resume:
  "handleSubmit_resume outcome s = (c, s') \<Longrightarrow> intervals s' = intervals s"
  by (auto simp: handleSubmit_resume_def split: prod.splits completion.splits
      dest!: intervals_handleSubmit_try intervals_handleSubmit_catch)

lemma intervals_clearFile [simp]: "intervals (clearFile s) = intervals s"
  by (simp add: clearFile_def Let_def split: option.splits)

lemma intervals_finish: "intervals (finish (c, s)) = intervals s"
  by (simp add: finish_def split: completion.splits)

lemma intervals_handleSubmit:
  "handleSubmit s = (c, s') \<Longrightarrow> \<exists>new. intervals s' = intervals s @ new"
  by (auto simp: handleSubmit_def showProcessingState_def simulateProgress_def Let_def
      showToast_string
      split: option.splits prod.splits completion.splits
      dest!: intervals_set_display)

lemma step_keeps_interval:
  assumes "j < length (intervals s)" and "intervals s ! j = Some w" and "fires ev \<noteq> Some j"
  shows "j < length (intervals (step ev s)) \<and> intervals (step ev s) ! j = Some w"
proof (cases ev)
  case (Change fs)
  obtain c s' where h: "handleDrop fs s = (c, s')" by (cases "handleDrop fs s")
  have "intervals (step ev s) = intervals s"
    using intervals_handleDrop [OF h] by (simp add: Change h intervals_finish)
  then show ?thesis using assms by simp
next
  case (Drop fs)
  obtain c s' where h: "handleDrop fs s = (c, s')" by (cases "handleDrop fs s")
  have "intervals (step ev s) = intervals s"
    using intervals_handleDrop [OF h] by (simp add: Drop h intervals_finish)
  then show ?thesis using assms by simp
next
  case Submit
  obtain c s' where h: "handleSubmit s = (c, s')" by (cases "handleSubmit s")
  from intervals_handleSubmit [OF h] obtain new where "intervals s' = intervals s @ new" ..
  then have "intervals (step ev s) = intervals s @ new"
    by (simp add: Submit h intervals_finish)
  then show ?thesis using assms by (simp add: nth_append)
next
  case (Settle i outcome)
  obtain c s' where h: "handleSubmit_resume outcome (s\<lparr>requests := (requests s)[i := None]\<rparr>) = (c, s')"
    by (cases "handleSubmit_resume outcome (s\<lparr>requests := (requests s)[i := None]\<rparr>)")
  have "intervals (step ev s) = intervals s"
    using intervals_handleSubmit_resume [OF h] by (simp add: Settle h intervals_finish)
  then show ?thesis using assms by simp
next
  case (Tick i r)
  then have "i \<noteq> j" using assms(3) by simp
  then show ?thesis
    using assms(1,2) by (simp add: Tick interval_callback_def Let_def split: option.splits)
next
  case ClearFile
  then show ?thesis using assms by simp
qed

lemma tick_own_interval:
  assumes "j < length (intervals s)" and "intervals s ! j = Some w"
  shows "intervals (step (Tick j r) s) ! j
         = (if dge (dadd w (dmul (Fin r) (Fin 15))) (Fin 95) then None
            else Some (dadd w (dmul (Fin r) (Fin 15))))"
    and "progressBar (step (Tick j r) s)
         = Some (PercentText (if dge (dadd w (dmul (Fin r) (Fin 15))) (Fin 95) then Fin 95
                              else dadd w (dmul (Fin r) (Fin 15))))"
  using assms by (simp_all add: interval_callback_def Let_def)

text \<open>
  C2, as the code has it: a running progress timer is cancelled only by its own tick, when
  its width reaches 95. Every other event, the arrival of a response and the failure of the
  request among them, leaves it running with its width unchanged: \<open>hideProcessingState\<close>
  hides the processing indicator and clears no timer. A tick of a running timer adds
  \<^verbatim>\<open>Math.random() * 15\<close> to the width and writes it to the progress bar.
\<close>

theorem ticker_cancelled_only_by_itself:
  assumes "j < length (intervals s)" and "intervals s ! j = Some w"
  shows "(fires ev \<noteq> Some j \<longrightarrow>
            j < length (intervals (step ev s)) \<and> intervals (step ev s) ! j = Some w)
    \<and> intervals (step (Tick j r) s) ! j
        = (if dge (dadd w (dmul (Fin r) (Fin 15))) (Fin 95) then None
           else Some (dadd w (dmul (Fin r) (Fin 15))))
    \<and> progressBar (step (Tick j r) s)
        = Some (PercentText (if dge (dadd w (dmul (Fin r) (Fin 15))) (Fin 95) then Fin 95
                             else dadd w (dmul (Fin r) (Fin 15))))"
  using step_keeps_interval [OF assms] tick_own_interval [OF assms] by blast

lemma round_double_half_15: "round_double (15 / 2) = Fin (15 / 2)"
proof -
  have "round_double (15 / 2)
        = Fin (of_int (round_half_even ((15 / 2) / 2 powi (- 50))) * 2 powi (- 50))"
    by (rule round_double_normal) simp_all
  moreover have "round_half_even ((15 / 2) / 2 powi (- 50)) = 8444249301319680"
    by (rule round_half_even_eval) simp_all
  ultimately show ?thesis by simp
qed

lemma tick_half:
  assumes "intervals s = [Some (Fin 0)]"
  shows "progressBar (step (Tick 0 (1 / 2)) s) = Some (PercentText (Fin (15 / 2)))"
    and "intervals (step (Tick 0 (1 / 2)) s) = [Some (Fin (15 / 2))]"
  using assms by (simp_all add: interval_callback_def Let_def round_double_half_15)

lemma completed_lookup:
  "requests completed = [None]" "intervals completed = [Some (Fin 0)]"
  by (simp_all add: completed_def in_flight_def)

lemma failed_lookup:
  "requests failed = [None]" "intervals failed = [Some (Fin 0)]"
  by (simp_all add: failed_def in_flight_def)

theorem ticker_cancelled_only_by_itself_witness:
  "intervals (step (Settle 0 NetworkError) in_flight) ! 0 = Some (Fin 0)
   \<and> intervals (step (Settle 0 (Response 200 (Json summary))) in_flight) ! 0 = Some (Fin 0)
   \<and> intervals (step (Tick 0 (1 / 2)) in_flight) ! 0 = Some (Fin (15 / 2))"
proof -
  have a: "0 < length (intervals in_flight)" "intervals in_flight ! 0 = Some (Fin 0)"
    by (simp_all add: in_flight_lookup)
  have b: "fires (Settle 0 NetworkError) \<noteq> Some 0"
    "fires (Settle 0 (Response 200 (Json summary))) \<noteq> Some 0"
    by simp_all
  show ?thesis
    using ticker_cancelled_only_by_itself [OF a, of "Settle 0 NetworkError" "1 / 2"]
      ticker_cancelled_only_by_itself [OF a, of "Settle 0 (Response 200 (Json summary))" "1 / 2"]
      b
    by (simp add: round_double_half_15 del: step.simps)
qed

text \<open>
  After the request has completed, and likewise after it has failed, the controller is no
  longer submitting, yet the timer started by the submission still fires and moves the
  progress bar.
\<close>

theorem ticker_counterexample:
  "run [Change [statement], Submit, Settle 0 (Response 200 (Json summary))] page = completed
   \<and> \<not> submitting completed
   \<and> progressBar completed = Some (Text ''0%'')
   \<and> progressBar (step (Tick 0 (1 / 2)) completed) = Some (PercentText (Fin (15 / 2)))
   \<and> run [Change [statement], Submit, Settle 0 NetworkError] page = failed
   \<and> \<not> submitting failed
   \<and> progressBar failed = Some (Text ''0%'')
   \<and> progressBar (step (Tick 0 (1 / 2)) failed) = Some (PercentText (Fin (15 / 2)))"
proof -
  have "\<not> submitting completed" "\<not> submitting failed"
    by (simp_all add: submitting_def completed_lookup failed_lookup)
  moreover have "progressBar completed = Some (Text ''0%'')" "progressBar failed = Some (Text ''0%'')"
    by (simp_all add: completed_def failed_def in_flight_def staged_def)
  ultimately show ?thesis
    using tick_half(1) [OF completed_lookup(2)] tick_half(1) [OF failed_lookup(2)]
    by (simp add: run_completed run_failed del: step.simps)
qed

subsection \<open>Failure of the transport\<close>

text \<open>
  What the code does for the failures it detects. When \<^verbatim>\<open>fetch\<close> rejects or the body of the
  response is not well-formed JSON, \<open>handleSubmit\<close> hides the processing indicator, shows the
  upload form again, shows the generic failure notification with severity \<^verbatim>\<open>danger\<close> and
  changes nothing else, so the staged file stays. A response whose body carries a truthy
  \<^verbatim>\<open>error\<close> takes the same path, with the backend's message in place of the generic one
  when that message can be converted to a string.
\<close>

lemma handleSubmit_failure_paths:
  assumes "elements s ''processingStatus'' = Some ps" and "elements s ''uploadForm'' = Some uf"
  shows "(outcome = NetworkError \<or> outcome = Response status Malformed \<longrightarrow>
            handleSubmit_resume outcome s
            = (Normal,
               s\<lparr>elements := (elements s)
                    (''processingStatus'' \<mapsto> ps\<lparr>display := ''none''\<rparr>,
                     ''uploadForm'' \<mapsto> uf\<lparr>display := ''block''\<rparr>),
                  toasts := toasts s @ [(generic_failure, ''danger'')]\<rparr>))
    \<and> (get_prop result ''error'' = Some err \<and> truthy err \<longrightarrow>
            handleSubmit_resume (Response status (Json result)) s
            = (Normal,
               s\<lparr>elements := (elements s)
                    (''processingStatus'' \<mapsto> ps\<lparr>display := ''none''\<rparr>,
                     ''uploadForm'' \<mapsto> uf\<lparr>display := ''block''\<rparr>),
                  toasts := toasts s
                    @ [(if stringifies err then err else generic_failure, ''danger'')]\<rparr>))"
proof -
  have c: "handleSubmit_catch s'
        = (Normal,
           s\<lparr>elements := (elements s)
                (''processingStatus'' \<mapsto> ps\<lparr>display := ''none''\<rparr>,
                 ''uploadForm'' \<mapsto> uf\<lparr>display := ''block''\<rparr>),
              toasts := toasts s @ [(generic_failure, ''danger'')]\<rparr>)"
    if "s' = s \<or> s' = s\<lparr>elements := (elements s)
                (''processingStatus'' \<mapsto> ps\<lparr>display := ''none''\<rparr>)\<rparr>" for s'
    using that assms
    by (auto simp: handleSubmit_catch_def hideProcessingState_def showUploadForm_def
        set_display_def generic_failure_def showToast_string)
  have "handleSubmit_try NetworkError s = (Throw, s)"
    "handleSubmit_try (Response status Malformed) s = (Throw, s)"
    by (simp_all add: handleSubmit_try_def)
  then have d: "handleSubmit_resume NetworkError s = handleSubmit_catch s"
    "handleSubmit_resume (Response status Malformed) s = handleSubmit_catch s"
    by (simp_all add: handleSubmit_resume_def)
  have e: "handleSubmit_resume (Response status (Json result)) s
        = (Normal,
           s\<lparr>elements := (elements s)
                (''processingStatus'' \<mapsto> ps\<lparr>display := ''none''\<rparr>,
                 ''uploadForm'' \<mapsto> uf\<lparr>display := ''block''\<rparr>),
              toasts := toasts s
                @ [(if stringifies err then err else generic_failure, ''danger'')]\<rparr>)"
    if g: "get_prop result ''error'' = Some err" and t: "truthy err"
  proof (cases "stringifies err")
    case True
    then show ?thesis
      using g t assms
      by (simp add: handleSubmit_resume_def handleSubmit_try_def hideProcessingState_def
          showUploadForm_def set_display_def showToast_def)
  next
    case False
    then have "handleSubmit_try (Response status (Json result)) s
        = (Throw, s\<lparr>elements := (elements s)
                (''processingStatus'' \<mapsto> ps\<lparr>display := ''none''\<rparr>)\<rparr>)"
      using g t assms
      by (simp add: handleSubmit_try_def hideProcessingState_def set_display_def showToast_def)
    then show ?thesis
      using False c by (simp add: handleSubmit_resume_def)
  qed
  from c [of s] d e show ?thesis by auto
qed

text \<open>
  C3 asks that every transport failure, a non-success status among them, takes the failed
  path and is never treated as a success. The code never reads the status of the response:
  for a response with status 500 and body \<^verbatim>\<open>{"success": "42 transactions processed"}\<close> it
  shows the result panel and a success notification, shows no failure notification and
  leaves the upload form hidden.
\<close>

theorem non_success_status_rendered_as_success:
  "step (Settle 0 (Response 500 (Json summary))) in_flight = completed
   \<and> toasts completed = [(JStr ''42 transactions processed'', ''success'')]
   \<and> map_option display (elements completed ''processingResults'') = Some ''block''
   \<and> map_option display (elements completed ''uploadForm'') = Some ''none''"
  by (simp add: step_completed del: step.simps)
    (simp add: completed_def in_flight_def staged_def)

subsection \<open>A success value that is no string\<close>


end
